theory Spec2Isabelle
  imports Main
begin

section \<open>JavaScript strings\<close>

text \<open>
  A string of the program is modelled as a \<^typ>\<open>string\<close>: the list of its code units, each
  in the range U+0000 .. U+00FF (Basic Latin and Latin-1 Supplement). In this range a code
  unit is a code point, so \<open>for (const char of s)\<close> and \<open>[...s]\<close> visit the elements of the
  list one by one.
\<close>

definition code :: "char \<Rightarrow> nat" where
  "code c = of_char c"

text \<open>
  \<open>String.prototype.toLowerCase\<close>. In the modelled range the letters with a lower-case form
  are A-Z and U+00C0 .. U+00DE without the multiplication sign U+00D7; the lower-case form
  is 32 code units higher.
\<close>

definition hasLower :: "char \<Rightarrow> bool" where
  "hasLower c = ((65 \<le> code c \<and> code c \<le> 90) \<or> (192 \<le> code c \<and> code c \<le> 222 \<and> code c \<noteq> 215))"

definition lowerChar :: "char \<Rightarrow> char" where
  "lowerChar c =
     (if hasLower c
      then char_of (code c + 32)
      else c)"

definition toLowerCase :: "string \<Rightarrow> string" where
  "toLowerCase s = map lowerChar s"

text \<open>
  \<open>String.prototype.toUpperCase\<close>. The letters a-z and U+00E0 .. U+00FE without the division
  sign U+00F7 move 32 code units down; the sharp s U+00DF becomes the two letters SS. The
  upper-case forms of U+00B5 and U+00FF lie outside the modelled range (U+039C, U+0178);
  these two code units are left as they are, which no function below can tell apart: every
  upper-cased string is only compared with characters below U+0080 or measured in length.
\<close>

definition hasUpper :: "char \<Rightarrow> bool" where
  "hasUpper c = ((97 \<le> code c \<and> code c \<le> 122) \<or> (224 \<le> code c \<and> code c \<le> 254 \<and> code c \<noteq> 247))"

definition upperChar :: "char \<Rightarrow> string" where
  "upperChar c =
     (if hasUpper c
      then [char_of (code c - 32)]
      else if code c = 223 then ''SS''
      else [c])"

definition toUpperCase :: "string \<Rightarrow> string" where
  "toUpperCase s = concat (map upperChar s)"

text \<open>\<open>String.prototype.indexOf\<close>: the first position at which the argument occurs, \<open>None\<close> for -1.\<close>

fun indexOf :: "string \<Rightarrow> string \<Rightarrow> nat option" where
  "indexOf [] p = (if p = [] then Some 0 else None)"
| "indexOf (x # xs) p =
     (if take (length p) (x # xs) = p then Some 0 else map_option Suc (indexOf xs p))"

text \<open>The character classes of the regular expressions used below.\<close>

definition isDigit :: "char \<Rightarrow> bool" where
  "isDigit c = (48 \<le> code c \<and> code c \<le> 57)"

definition isUpperAZ :: "char \<Rightarrow> bool" where
  "isUpperAZ c = (65 \<le> code c \<and> code c \<le> 90)"

definition isLowerAZ :: "char \<Rightarrow> bool" where
  "isLowerAZ c = (97 \<le> code c \<and> code c \<le> 122)"

text \<open>
  \<open>Number.prototype.toString\<close> on a non-negative integer: its decimal digits, most
  significant first.
\<close>

definition digitChar :: "nat \<Rightarrow> char" where
  "digitChar d = char_of (48 + d)"

fun natToString :: "nat \<Rightarrow> string" where
  "natToString n = (if n < 10 then [digitChar n] else natToString (n div 10) @ [digitChar (n mod 10)])"

declare natToString.simps [simp del]

text \<open>\<open>String.prototype.padStart(n, '0')\<close>.\<close>

definition padStart0 :: "nat \<Rightarrow> string \<Rightarrow> string" where
  "padStart0 n s = replicate (n - length s) CHR ''0'' @ s"

text \<open>\<open>parseInt(s, 10)\<close> on a string of decimal digits.\<close>

definition parseDigits :: "string \<Rightarrow> nat" where
  "parseDigits s = foldl (\<lambda>acc c. 10 * acc + (code c - 48)) 0 s"

section \<open>Check digits\<close>

datatype check_error = InvalidCharacter char | InvalidInterim | InvalidDigit

subsection \<open>ISO 7064 MOD 11,10\<close>

definition ISO7064_ALPHABET :: string where
  "ISO7064_ALPHABET = ''0123456789ABCDEFGHIJKLMNOPQRSTUVWXYZ''"

text \<open>One turn of the loop of \<open>calculateISO7064Check\<close>; \<open>x || 10\<close> is 10 when \<open>x\<close> is 0.\<close>

definition iso7064Step :: "nat \<Rightarrow> nat \<Rightarrow> nat" where
  "iso7064Step remainder v =
     ((let x = (remainder + v) mod 10 in if x = 0 then 10 else x) * 2) mod 11"

fun iso7064Loop :: "nat \<Rightarrow> string \<Rightarrow> check_error + nat" where
  "iso7064Loop remainder [] = Inr remainder"
| "iso7064Loop remainder (c # cs) =
     (case indexOf ISO7064_ALPHABET [c] of
        None \<Rightarrow> Inl (InvalidCharacter c)
      | Some index \<Rightarrow> iso7064Loop (iso7064Step remainder index) cs)"

text \<open>The last two statements: the check value and its rendering.\<close>

definition renderCheck :: "nat \<Rightarrow> string" where
  "renderCheck checkValue = (if checkValue = 10 then ''X'' else natToString checkValue)"

definition calculateISO7064Check :: "string \<Rightarrow> check_error + string" where
  "calculateISO7064Check input =
     (case iso7064Loop 10 (toUpperCase input) of
        Inl e \<Rightarrow> Inl e
      | Inr remainder \<Rightarrow> Inr (renderCheck ((11 - remainder) mod 10)))"

definition verifyISO7064 :: "string \<Rightarrow> string \<Rightarrow> bool" where
  "verifyISO7064 input checkDigit =
     (case calculateISO7064Check input of
        Inl e \<Rightarrow> False
      | Inr calculated \<Rightarrow> calculated = toUpperCase checkDigit)"

subsection \<open>Damm algorithm\<close>

definition DAMM_TABLE :: "nat list list" where
  "DAMM_TABLE =
    [[0, 3, 1, 7, 5, 9, 8, 6, 4, 2],
     [7, 0, 9, 2, 1, 5, 4, 8, 6, 3],
     [4, 2, 0, 6, 8, 7, 1, 3, 5, 9],
     [1, 7, 5, 0, 9, 8, 3, 4, 2, 6],
     [6, 1, 2, 3, 0, 4, 5, 9, 7, 8],
     [3, 6, 7, 4, 2, 0, 9, 5, 8, 1],
     [5, 8, 6, 9, 7, 2, 0, 1, 3, 4],
     [8, 9, 4, 5, 3, 6, 2, 0, 1, 7],
     [9, 4, 3, 8, 6, 1, 7, 2, 0, 5],
     [2, 5, 8, 1, 4, 3, 6, 7, 9, 0]]"

definition VERIFICATION_CODE_ALPHABET :: string where
  "VERIFICATION_CODE_ALPHABET = ''ABCDEFGHJKMNPQRSTUVWXYZ23456789''"

text \<open>An array read \<open>xs[i]\<close>: \<open>None\<close> stands for \<open>undefined\<close>, the value out of range.\<close>

definition at :: "'a list \<Rightarrow> nat \<Rightarrow> 'a option" where
  "at xs i = (if i < length xs then Some (xs ! i) else None)"

definition charToDigit :: "char \<Rightarrow> check_error + nat" where
  "charToDigit c =
     (case indexOf VERIFICATION_CODE_ALPHABET (toUpperCase [c]) of
        None \<Rightarrow> Inl (InvalidCharacter c)
      | Some index \<Rightarrow> Inr (index mod 10))"

text \<open>The first loop of \<open>calculateDammCheck\<close>: every failure is a throw.\<close>

fun dammInterim :: "nat \<Rightarrow> string \<Rightarrow> check_error + nat" where
  "dammInterim interim [] = Inr interim"
| "dammInterim interim (c # cs) =
     (case charToDigit c of
        Inl e \<Rightarrow> Inl e
      | Inr digit \<Rightarrow>
          (case at DAMM_TABLE interim of
             None \<Rightarrow> Inl InvalidInterim
           | Some row \<Rightarrow>
               (case at row digit of
                  None \<Rightarrow> Inl InvalidDigit
                | Some nextValue \<Rightarrow> dammInterim nextValue cs)))"

text \<open>
  The second loop, \<open>for (let d = 0; d < 10; d++)\<close>, over the candidates that are left; the
  result is the character returned, \<open>None\<close> when the loop ends without returning.
\<close>

fun dammSearch :: "nat \<Rightarrow> nat list \<Rightarrow> string option" where
  "dammSearch interim [] = None"
| "dammSearch interim (d # ds) =
     (if (case at DAMM_TABLE interim of None \<Rightarrow> False | Some row \<Rightarrow> at row d = Some 0)
      then Some (case at VERIFICATION_CODE_ALPHABET d of None \<Rightarrow> ''2'' | Some ch \<Rightarrow> [ch])
      else dammSearch interim ds)"

definition calculateDammCheck :: "string \<Rightarrow> check_error + string" where
  "calculateDammCheck input =
     (case dammInterim 0 (toUpperCase input) of
        Inl e \<Rightarrow> Inl e
      | Inr interim \<Rightarrow>
          (case dammSearch interim [0 ..< 10] of
             Some ch \<Rightarrow> Inr ch
           | None \<Rightarrow> Inr (case at VERIFICATION_CODE_ALPHABET 0 of None \<Rightarrow> ''A'' | Some ch \<Rightarrow> [ch])))"

definition verifyDamm :: "string \<Rightarrow> string \<Rightarrow> bool" where
  "verifyDamm input checkDigit =
     (case calculateDammCheck input of
        Inl e \<Rightarrow> False
      | Inr calculated \<Rightarrow> calculated = toUpperCase checkDigit)"

text \<open>
  The loop of \<open>validateDammFull\<close> with the comparison that follows it: a missing row or
  entry returns false, a character outside the alphabet throws (and is caught by the caller).
\<close>

fun validateDammLoop :: "nat \<Rightarrow> string \<Rightarrow> check_error + bool" where
  "validateDammLoop interim [] = Inr (interim = 0)"
| "validateDammLoop interim (c # cs) =
     (case charToDigit c of
        Inl e \<Rightarrow> Inl e
      | Inr digit \<Rightarrow>
          (case at DAMM_TABLE interim of
             None \<Rightarrow> Inr False
           | Some row \<Rightarrow>
               (case at row digit of
                  None \<Rightarrow> Inr False
                | Some nextValue \<Rightarrow> validateDammLoop nextValue cs)))"

definition validateDammFull :: "string \<Rightarrow> bool" where
  "validateDammFull fullString =
     (if length fullString < 2 then False
      else (case validateDammLoop 0 (toUpperCase fullString) of
              Inl e \<Rightarrow> False
            | Inr b \<Rightarrow> b))"

subsection \<open>Utility functions\<close>

text \<open>
  \<open>cleanCode\<close>: the class \<open>[-\s]\<close> is the hyphen and the white space and line terminators of
  the modelled range (U+0009 .. U+000D, U+0020, U+00A0).
\<close>

definition isHyphenOrSpace :: "char \<Rightarrow> bool" where
  "isHyphenOrSpace c =
     (c = CHR ''-'' \<or> (9 \<le> code c \<and> code c \<le> 13) \<or> code c = 32 \<or> code c = 160)"

definition cleanCode :: "string \<Rightarrow> string" where
  "cleanCode c = toUpperCase (filter (\<lambda>ch. \<not> isHyphenOrSpace ch) c)"

section \<open>Identifiers\<close>

datatype CertificationLevel = bronze | silver | gold

text \<open>
  A \<open>number\<close> argument: an integer, or any other value of the type (a fraction, an
  infinity, NaN), for which \<open>Number.isInteger\<close> is false.
\<close>

datatype jsnumber = Integer int | NonInteger

record GenerateCertificateNumberOptions =
  year :: jsnumber
  level :: CertificationLevel
  country :: string
  issuerCode :: string
  serial :: jsnumber

record CertificateNumberParts =
  p_year :: nat
  p_level :: CertificationLevel
  p_levelCode :: string
  p_country :: string
  p_issuerCode :: string
  p_serial :: nat
  p_checkDigit :: string

datatype identifier_error =
    InvalidYear | InvalidLevel | InvalidCountry | InvalidIssuerCode | InvalidSerial
  | CheckFailed check_error

fun LEVEL_CODES :: "CertificationLevel \<Rightarrow> string" where
  "LEVEL_CODES bronze = ''B''"
| "LEVEL_CODES silver = ''S''"
| "LEVEL_CODES gold = ''G''"

definition CODE_TO_LEVEL :: "string \<Rightarrow> CertificationLevel option" where
  "CODE_TO_LEVEL c =
     (if c = ''B'' then Some bronze
      else if c = ''S'' then Some silver
      else if c = ''G'' then Some gold
      else None)"

text \<open>
  A regular expression that is a sequence of character classes, anchored at both ends,
  matches a string when the two have the same length and every character is in its class.
\<close>

definition matchClasses :: "(char \<Rightarrow> bool) list \<Rightarrow> string \<Rightarrow> bool" where
  "matchClasses classes s = list_all2 (\<lambda>cl c. cl c) classes s"

text \<open>
  Under the flag \<open>i\<close> a character is compared through its canonical form: its upper-case
  form when that is a single code unit, the character itself otherwise.
\<close>

definition canonicalize :: "char \<Rightarrow> char" where
  "canonicalize c = (case upperChar c of [u] \<Rightarrow> u | _ \<Rightarrow> c)"

definition lit :: "char \<Rightarrow> char \<Rightarrow> bool" where
  "lit x c = (c = x)"

definition litI :: "char \<Rightarrow> char \<Rightarrow> bool" where
  "litI x c = (canonicalize c = canonicalize x)"

definition isAZI :: "char \<Rightarrow> bool" where
  "isAZI c = isUpperAZ (canonicalize c)"

definition isBSGI :: "char \<Rightarrow> bool" where
  "isBSGI c = (canonicalize c \<in> set ''BSG'')"

definition isAZ09I :: "char \<Rightarrow> bool" where
  "isAZ09I c = (isUpperAZ (canonicalize c) \<or> isDigit c)"

text \<open>\<open>/^RS-(\d{4})-([BSG])-([A-Z]{2})-([A-Z]{3})-(\d{6})-([A-Z0-9])$/i\<close>\<close>

definition certificatePattern :: "(char \<Rightarrow> bool) list" where
  "certificatePattern =
     [litI CHR ''R'', litI CHR ''S'', lit CHR ''-'']
     @ replicate 4 isDigit @ [lit CHR ''-'']
     @ [isBSGI, lit CHR ''-'']
     @ replicate 2 isAZI @ [lit CHR ''-'']
     @ replicate 3 isAZI @ [lit CHR ''-'']
     @ replicate 6 isDigit @ [lit CHR ''-'']
     @ [isAZ09I]"

text \<open>\<open>s.slice(i, j)\<close> for \<open>0 \<le> i \<le> j\<close>.\<close>

definition slice :: "nat \<Rightarrow> nat \<Rightarrow> 'a list \<Rightarrow> 'a list" where
  "slice i j s = take (j - i) (drop i s)"

definition generateCertificateNumber ::
    "GenerateCertificateNumberOptions \<Rightarrow> identifier_error + string" where
  "generateCertificateNumber options =
     (case year options of
        NonInteger \<Rightarrow> Inl InvalidYear
      | Integer y \<Rightarrow>
          if y < 2020 \<or> y > 2100 then Inl InvalidYear
          else let levelCode = LEVEL_CODES (level options) in
          if levelCode = [] then Inl InvalidLevel
          else let upperCountry = toUpperCase (country options) in
          if \<not> matchClasses (replicate 2 isUpperAZ) upperCountry then Inl InvalidCountry
          else let upperIssuer = toUpperCase (issuerCode options) in
          if \<not> matchClasses (replicate 3 isUpperAZ) upperIssuer then Inl InvalidIssuerCode
          else (case serial options of
                  NonInteger \<Rightarrow> Inl InvalidSerial
                | Integer n \<Rightarrow>
                    if n < 1 \<or> n > 999999 then Inl InvalidSerial
                    else let paddedSerial = padStart0 6 (natToString (nat n));
                             base = ''RS'' @ natToString (nat y) @ levelCode @ upperCountry
                                    @ upperIssuer @ paddedSerial
                         in (case calculateISO7064Check base of
                               Inl e \<Rightarrow> Inl (CheckFailed e)
                             | Inr chk \<Rightarrow>
                                 Inr (''RS-'' @ natToString (nat y) @ ''-'' @ levelCode @ ''-''
                                      @ upperCountry @ ''-'' @ upperIssuer @ ''-''
                                      @ paddedSerial @ ''-'' @ chk))))"

definition parseCertificateNumber :: "string \<Rightarrow> CertificateNumberParts option" where
  "parseCertificateNumber certificateNumber =
     (let u = toUpperCase certificateNumber in
      if \<not> matchClasses certificatePattern u then None
      else let yearStr = slice 3 7 u; levelCode = slice 8 9 u; country = slice 10 12 u;
               issuerCode = slice 13 16 u; serialStr = slice 17 23 u; checkDigit = slice 24 25 u
      in if yearStr = [] \<or> levelCode = [] \<or> country = [] \<or> issuerCode = []
            \<or> serialStr = [] \<or> checkDigit = [] then None
      else (case CODE_TO_LEVEL levelCode of
              None \<Rightarrow> None
            | Some lvl \<Rightarrow>
                Some \<lparr> p_year = parseDigits yearStr, p_level = lvl, p_levelCode = levelCode,
                       p_country = country, p_issuerCode = issuerCode,
                       p_serial = parseDigits serialStr, p_checkDigit = checkDigit \<rparr>))"

definition validateCertificateNumber :: "string \<Rightarrow> bool" where
  "validateCertificateNumber certificateNumber =
     (case parseCertificateNumber certificateNumber of
        None \<Rightarrow> False
      | Some parts \<Rightarrow>
          (let paddedSerial = padStart0 6 (natToString (p_serial parts));
               base = ''RS'' @ natToString (p_year parts) @ p_levelCode parts @ p_country parts
                      @ p_issuerCode parts @ paddedSerial
           in verifyISO7064 base (p_checkDigit parts)))"

definition validateVerificationCode :: "string \<Rightarrow> bool" where
  "validateVerificationCode c =
     (let clean = cleanCode c in
      if length clean \<noteq> 8 then False else validateDammFull clean)"

section \<open>Protocol enforcement\<close>

text \<open>
  A value of type \<open>unknown\<close>. An object is the list of its own enumerable properties in
  the order in which \<open>Object.keys\<close> lists them; an array is an object in this sense.
\<close>

datatype jsval =
    VUndefined | VNull | VBool bool | VNum jsnumber | VStr string
  | VObj "(string \<times> jsval) list"

type_synonym jsobject = "(string \<times> jsval) list"

definition Object_keys :: "jsobject \<Rightarrow> string list" where
  "Object_keys data = map fst data"

text \<open>A property read \<open>data[k]\<close>: \<open>undefined\<close> when the object has no such property.\<close>

definition getProp :: "jsobject \<Rightarrow> string \<Rightarrow> jsval" where
  "getProp data k = (case map_of data k of None \<Rightarrow> VUndefined | Some v \<Rightarrow> v)"

definition ALLOWED_PUBLIC_FIELDS :: "string list" where
  "ALLOWED_PUBLIC_FIELDS = [''givenName'', ''familyName'', ''level'', ''validFrom'', ''validUntil'']"

definition FORBIDDEN_FIELDS :: "string list" where
  "FORBIDDEN_FIELDS =
    [''email'', ''phone'', ''mobile'', ''address'', ''dateOfBirth'', ''dob'', ''birthDate'',
     ''gender'', ''sex'', ''age'', ''aadhaarNumber'', ''aadhaar'', ''panNumber'', ''pan'',
     ''passport'', ''passportNumber'', ''drivingLicense'', ''licenseNumber'',
     ''socialSecurityNumber'', ''ssn'', ''nationalId'', ''voterId'', ''testScore'',
     ''score'', ''hazardScore'', ''practicalScore'', ''theoryScore'', ''grade'', ''marks'',
     ''bankAccount'', ''accountNumber'', ''ifsc'', ''upi'', ''creditCard'', ''salary'',
     ''income'', ''internalRiderId'', ''riderId'', ''internalId'', ''externalId'',
     ''employeeId'', ''staffId'', ''location'', ''gps'', ''coordinates'', ''homeAddress'',
     ''workAddress'', ''photo'', ''photograph'', ''fingerprint'', ''biometric'', ''faceId'']"

datatype protocol_error =
    ProtocolViolationError string string
  | MissingAttributeError string
  | AttributeValidationError string string

definition isForbiddenField :: "string \<Rightarrow> bool" where
  "isForbiddenField field =
     (let lowerField = toLowerCase field
      in list_ex (\<lambda>f. toLowerCase f = lowerField) FORBIDDEN_FIELDS)"

definition isAllowedField :: "string \<Rightarrow> bool" where
  "isAllowedField field = (field \<in> set ALLOWED_PUBLIC_FIELDS)"

text \<open>
  The nested scan of \<open>detectForbiddenFields\<close>: the condition \<open>v && typeof v === 'object'\<close>
  holds of objects only (\<open>null\<close> is not truthy).
\<close>

definition nestedForbidden :: "jsobject \<Rightarrow> string \<Rightarrow> string list" where
  "nestedForbidden data container =
     (case getProp data container of
        VObj inner \<Rightarrow> map (\<lambda>k. container @ ''.'' @ k) (filter isForbiddenField (Object_keys inner))
      | _ \<Rightarrow> [])"

definition detectForbiddenFields :: "jsobject \<Rightarrow> string list" where
  "detectForbiddenFields data =
     filter isForbiddenField (Object_keys data)
     @ nestedForbidden data ''publicAttributes''
     @ nestedForbidden data ''attributes''"

definition detectUnknownFields :: "jsobject \<Rightarrow> string list" where
  "detectUnknownFields data =
     filter (\<lambda>k. \<not> isAllowedField k \<and> \<not> isForbiddenField k) (Object_keys data)"

subsection \<open>Attribute validation\<close>

definition validateLevel :: "jsval \<Rightarrow> bool" where
  "validateLevel lv = (lv = VStr ''bronze'' \<or> lv = VStr ''silver'' \<or> lv = VStr ''gold'')"

text \<open>
  \<open>/^\d{4}-(0[1-9]|1[0-2])-(0[1-9]|[12]\d|3[01])(T\d{2}:\d{2}:\d{2}(\.\d{3})?Z?)?$/\<close>,
  read from left to right.
\<close>

definition isoMonth :: "char \<Rightarrow> char \<Rightarrow> bool" where
  "isoMonth a b =
     ((a = CHR ''0'' \<and> 49 \<le> code b \<and> code b \<le> 57) \<or> (a = CHR ''1'' \<and> 48 \<le> code b \<and> code b \<le> 50))"

definition isoDay :: "char \<Rightarrow> char \<Rightarrow> bool" where
  "isoDay a b =
     ((a = CHR ''0'' \<and> 49 \<le> code b \<and> code b \<le> 57)
      \<or> ((a = CHR ''1'' \<or> a = CHR ''2'') \<and> isDigit b)
      \<or> (a = CHR ''3'' \<and> (b = CHR ''0'' \<or> b = CHR ''1'')))"

definition isoZone :: "string \<Rightarrow> bool" where
  "isoZone z = (z = [] \<or> z = ''Z'')"

definition isoFraction :: "string \<Rightarrow> bool" where
  "isoFraction r =
     (isoZone r
      \<or> (matchClasses ([lit CHR ''.''] @ replicate 3 isDigit) (take 4 r) \<and> isoZone (drop 4 r)))"

definition isoTime :: "string \<Rightarrow> bool" where
  "isoTime t =
     (t = []
      \<or> (matchClasses ([lit CHR ''T'', isDigit, isDigit, lit CHR '':'', isDigit, isDigit,
                         lit CHR '':'', isDigit, isDigit]) (take 9 t)
         \<and> isoFraction (drop 9 t)))"

definition isoDatePattern :: "string \<Rightarrow> bool" where
  "isoDatePattern s =
     (matchClasses (replicate 4 isDigit @ [lit CHR ''-'']) (take 5 s)
      \<and> (case drop 5 s of
            a # b # h # c # d # t \<Rightarrow> isoMonth a b \<and> h = CHR ''-'' \<and> isoDay c d \<and> isoTime t
          | _ \<Rightarrow> False))"

text \<open>
  The built-in \<open>Date\<close> belongs to the engine, not to the program: the functions that call
  \<open>new Date(s)\<close> take it as the parameter \<open>newDate\<close>, which gives the time value of the
  date in milliseconds, \<open>None\<close> for the invalid date (whose time value is NaN).
\<close>

definition validateISODate :: "(string \<Rightarrow> int option) \<Rightarrow> jsval \<Rightarrow> bool" where
  "validateISODate newDate date =
     (case date of
        VStr s \<Rightarrow> if \<not> isoDatePattern s then False else newDate s \<noteq> None
      | _ \<Rightarrow> False)"

definition isControl :: "char \<Rightarrow> bool" where
  "isControl c = (code c \<le> 31 \<or> (127 \<le> code c \<and> code c \<le> 159))"

text \<open>\<open>/<[^>]*>/\<close>: some \<open><\<close> with a \<open>>\<close> anywhere after it.\<close>

definition hasHtmlTag :: "string \<Rightarrow> bool" where
  "hasHtmlTag s =
     (case dropWhile (\<lambda>c. c \<noteq> CHR ''<'') s of
        [] \<Rightarrow> False
      | _ # rest \<Rightarrow> CHR ''>'' \<in> set rest)"

text \<open>The characters \<open>trim\<close> removes: white space and line terminators of the modelled range.\<close>

definition isTrimmed :: "char \<Rightarrow> bool" where
  "isTrimmed c = ((9 \<le> code c \<and> code c \<le> 13) \<or> code c = 32 \<or> code c = 160)"

definition validateName :: "jsval \<Rightarrow> bool" where
  "validateName v =
     (case v of
        VStr name \<Rightarrow>
          (let codePoints = length name in
           if codePoints < 1 \<or> codePoints > 100 then False
           else if list_ex isControl name then False
           else if hasHtmlTag name then False
           else if list_all isTrimmed name then False
           else True)
      | _ \<Rightarrow> False)"

subsection \<open>The enforcement function\<close>

text \<open>\<open>xs.join(', ')\<close>\<close>

fun join :: "string list \<Rightarrow> string" where
  "join [] = []"
| "join [x] = x"
| "join (x # y # ys) = x @ '', '' @ join (y # ys)"

definition isMissing :: "jsval \<Rightarrow> bool" where
  "isMissing v = (v = VUndefined \<or> v = VNull)"

text \<open>\<open>untilDate <= fromDate\<close> on two dates: false when either time value is NaN.\<close>

definition dateLe :: "int option \<Rightarrow> int option \<Rightarrow> bool" where
  "dateLe a b = (case (a, b) of (Some x, Some y) \<Rightarrow> x \<le> y | _ \<Rightarrow> False)"

definition violationMessage :: "string list \<Rightarrow> string" where
  "violationMessage forbidden =
     ''PROTOCOL VIOLATION: Cannot store the following fields in the registry: ''
     @ join forbidden
     @ ''. These fields contain private data and must remain with the issuer.''"

definition nameMessage :: string where
  "nameMessage = ''Must be a string between 1-100 characters without control characters or HTML''"

definition levelMessage :: string where
  \<open>levelMessage = ''Must be "bronze", "silver", or "gold"''\<close>

definition dateMessage :: string where
  "dateMessage = ''Must be a valid ISO 8601 date (YYYY-MM-DD)''"

text \<open>
  Steps 2 to 5 of \<open>enforcePublicAttributesOnly\<close>, on the five values that the
  destructuring \<open>const { givenName, familyName, level, validFrom, validUntil } = data\<close> reads.
\<close>

definition checkAttributes ::
    "(string \<Rightarrow> int option) \<Rightarrow> jsval \<Rightarrow> jsval \<Rightarrow> jsval \<Rightarrow> jsval \<Rightarrow> jsval
      \<Rightarrow> protocol_error + jsobject" where
  "checkAttributes newDate givenName familyName lv validFrom validUntil =
     (if isMissing givenName then Inl (MissingAttributeError ''givenName'')
      else if isMissing familyName then Inl (MissingAttributeError ''familyName'')
      else if isMissing lv then Inl (MissingAttributeError ''level'')
      else if isMissing validFrom then Inl (MissingAttributeError ''validFrom'')
      else if isMissing validUntil then Inl (MissingAttributeError ''validUntil'')
      else if \<not> validateName givenName
        then Inl (AttributeValidationError ''givenName'' nameMessage)
      else if \<not> validateName familyName
        then Inl (AttributeValidationError ''familyName'' nameMessage)
      else if \<not> validateLevel lv
        then Inl (AttributeValidationError ''level'' levelMessage)
      else if \<not> validateISODate newDate validFrom
        then Inl (AttributeValidationError ''validFrom'' dateMessage)
      else if \<not> validateISODate newDate validUntil
        then Inl (AttributeValidationError ''validUntil'' dateMessage)
      else (case (validFrom, validUntil) of
              (VStr fromStr, VStr untilStr) \<Rightarrow>
                if dateLe (newDate untilStr) (newDate fromStr)
                then Inl (AttributeValidationError ''validUntil'' ''Must be after validFrom date'')
                else Inr [(''givenName'', givenName), (''familyName'', familyName),
                          (''level'', lv), (''validFrom'', validFrom),
                          (''validUntil'', validUntil)]
            | _ \<Rightarrow> Inl (AttributeValidationError ''validUntil'' dateMessage)))"

definition enforcePublicAttributesOnly ::
    "(string \<Rightarrow> int option) \<Rightarrow> jsobject \<Rightarrow> protocol_error + jsobject" where
  "enforcePublicAttributesOnly newDate data =
     (case detectForbiddenFields data of
        first # others \<Rightarrow>
          Inl (ProtocolViolationError first (violationMessage (first # others)))
      | [] \<Rightarrow>
          checkAttributes newDate (getProp data ''givenName'') (getProp data ''familyName'')
            (getProp data ''level'') (getProp data ''validFrom'') (getProp data ''validUntil''))"

text \<open>
  An instance of the parameter for the closed examples below: for the date-only form
  \<open>YYYY-MM-DD\<close>, the milliseconds from the epoch to midnight UTC of that day (a day past
  the end of its month runs on into the next month); the invalid date for every other string.
\<close>

definition daysFromCivil :: "int \<Rightarrow> int \<Rightarrow> int \<Rightarrow> int" where
  "daysFromCivil y m d =
     (let y' = (if m \<le> 2 then y - 1 else y);
          era = y' div 400;
          yoe = y' mod 400;
          doy = (153 * ((m + 9) mod 12) + 2) div 5 + d - 1;
          doe = yoe * 365 + yoe div 4 - yoe div 100 + doy
      in era * 146097 + doe - 719468)"

definition dateOnlyUTC :: "string \<Rightarrow> int option" where
  "dateOnlyUTC s =
     (if length s = 10 \<and> isoDatePattern s
      then Some (86400000 * daysFromCivil (int (parseDigits (slice 0 4 s)))
                                          (int (parseDigits (slice 5 7 s)))
                                          (int (parseDigits (slice 8 10 s))))
      else None)"

section \<open>Notions used in the statements\<close>

text \<open>
  Two field names differ only in letter case: they have the same length, and at each
  position the same character or the two case forms of one letter.
\<close>

definition sameLetter :: "char \<Rightarrow> char \<Rightarrow> bool" where
  "sameLetter a b =
     (a = b \<or> (hasLower a \<and> code b = code a + 32) \<or> (hasLower b \<and> code a = code b + 32))"

definition caseVariant :: "string \<Rightarrow> string \<Rightarrow> bool" where
  "caseVariant f f' = list_all2 sameLetter f f'"

text \<open>A name of the denylist, in any character case.\<close>

definition forbiddenName :: "string \<Rightarrow> bool" where
  "forbiddenName k = list_ex (\<lambda>f. caseVariant f k) FORBIDDEN_FIELDS"

text \<open>
  An input contains a forbidden field: at top level, or inside one of the nested
  containers \<open>publicAttributes\<close> and \<open>attributes\<close>.
\<close>

definition forbiddenInside :: "jsobject \<Rightarrow> string \<Rightarrow> bool" where
  "forbiddenInside data container =
     (case getProp data container of
        VObj inner \<Rightarrow> list_ex forbiddenName (Object_keys inner)
      | _ \<Rightarrow> False)"

definition containsForbidden :: "jsobject \<Rightarrow> bool" where
  "containsForbidden data =
     (list_ex forbiddenName (Object_keys data)
      \<or> forbiddenInside data ''publicAttributes''
      \<or> forbiddenInside data ''attributes'')"

text \<open>The entry of the Damm table, for indices in range.\<close>

definition dammStep :: "nat \<Rightarrow> nat \<Rightarrow> nat" where
  "dammStep i d = DAMM_TABLE ! i ! d"

text \<open>The digit of a character of the verification-code alphabet.\<close>

definition dammDigit :: "char \<Rightarrow> nat" where
  "dammDigit c = (case charToDigit c of Inl e \<Rightarrow> 0 | Inr d \<Rightarrow> d)"

definition digits10 :: "nat list" where
  "digits10 = [0, 1, 2, 3, 4, 5, 6, 7, 8, 9]"

text \<open>The value of a character of the ISO 7064 alphabet: its index.\<close>

definition isoValue :: "char \<Rightarrow> nat" where
  "isoValue c = (case indexOf ISO7064_ALPHABET [c] of None \<Rightarrow> 0 | Some v \<Rightarrow> v)"

text \<open>The step of the MOD 11,10 loop as a function of the sum modulo 10.\<close>

definition isoTurn :: "nat \<Rightarrow> nat" where
  "isoTurn x = ((if x = 0 then 10 else x) * 2) mod 11"

text \<open>
  The valid inputs of \<open>generateCertificateNumber\<close>: an integer year from 2020 to 2100, a
  country of two letters, an issuer code of three letters, an integer serial from 1 to
  999999 (the level is one of the three levels by its type).
\<close>

definition inRange :: "jsnumber \<Rightarrow> int \<Rightarrow> int \<Rightarrow> bool" where
  "inRange x lo hi = (case x of Integer i \<Rightarrow> lo \<le> i \<and> i \<le> hi | NonInteger \<Rightarrow> False)"

definition isLetter :: "char \<Rightarrow> bool" where
  "isLetter c = (isUpperAZ c \<or> isLowerAZ c)"

definition validOptions :: "GenerateCertificateNumberOptions \<Rightarrow> bool" where
  "validOptions options =
     (inRange (year options) 2020 2100
      \<and> length (country options) = 2 \<and> list_all isLetter (country options)
      \<and> length (issuerCode options) = 3 \<and> list_all isLetter (issuerCode options)
      \<and> inRange (serial options) 1 999999)"

section \<open>Evaluation on closed terms\<close>

lemma replicate_numeral: "replicate (numeral k) x = x # replicate (pred_numeral k) x"
  by (simp add: numeral_eq_Suc)

lemmas char_eval = code_def hasLower_def hasUpper_def lowerChar_def upperChar_def char_of_def
  toLowerCase_def toUpperCase_def isDigit_def isUpperAZ_def isLowerAZ_def bit_Suc_0_iff

lemmas iso_eval = calculateISO7064Check_def verifyISO7064_def ISO7064_ALPHABET_def iso7064Step_def
  renderCheck_def natToString.simps digitChar_def Let_def

lemmas cert_eval = generateCertificateNumber_def validateCertificateNumber_def
  parseCertificateNumber_def certificatePattern_def matchClasses_def slice_def CODE_TO_LEVEL_def
  parseDigits_def lit_def litI_def isAZI_def isBSGI_def isAZ09I_def canonicalize_def
  padStart0_def replicate_numeral

lemmas date_eval = dateOnlyUTC_def daysFromCivil_def parseDigits_def slice_def isoDatePattern_def
  isoMonth_def isoDay_def isoTime_def isoFraction_def isoZone_def matchClasses_def lit_def
  replicate_numeral Let_def

section \<open>Properties of the check digits\<close>

lemma natToString_digit: "v < 10 \<Longrightarrow> natToString v = [digitChar v]"
  by (simp add: natToString.simps)

lemma example_remainder: "iso7064Loop 10 (toUpperCase ''RS2026GINSWG000001'') = Inr 3"
  by (simp add: iso_eval char_eval)

lemma example_check: "calculateISO7064Check ''RS2026GINSWG000001'' = Inr ''8''"
  by (simp add: iso_eval char_eval)

lemma render_table:
  "concat (map renderCheck digits10) = ''0123456789''"
  by (simp add: digits10_def renderCheck_def natToString.simps digitChar_def char_eval)

text \<open>
  C8. \<open>calculateISO7064Check\<close> returns the rendering of the check value
  \<open>(11 - remainder) mod 10\<close>; the values 0 to 9 are rendered as the digits \<open>0\<close> to \<open>9\<close> and
  the value 10 as the character \<open>X\<close>. The check character of \<open>RS2026GINSWG000001\<close> is not
  \<open>X\<close>, so \<open>validateCertificateNumber\<close> returns false on \<open>RS-2026-G-IN-SWG-000001-X\<close>.
\<close>

theorem check_value_rendering:
  "(iso7064Loop 10 (toUpperCase input) = Inr r \<longrightarrow>
      calculateISO7064Check input = Inr (renderCheck ((11 - r) mod 10))
      \<and> calculateISO7064Check input
          = Inr (if (11 - r) mod 10 = 10 then ''X'' else [digitChar ((11 - r) mod 10)]))
   \<and> concat (map renderCheck digits10) = ''0123456789''
   \<and> renderCheck 10 = ''X''
   \<and> (v < 10 \<longrightarrow> renderCheck v = [digitChar v])
   \<and> calculateISO7064Check ''RS2026GINSWG000001'' \<noteq> Inr ''X''
   \<and> \<not> validateCertificateNumber ''RS-2026-G-IN-SWG-000001-X''"
proof (intro conjI impI)
  assume loop: "iso7064Loop 10 (toUpperCase input) = Inr r"
  then show c: "calculateISO7064Check input = Inr (renderCheck ((11 - r) mod 10))"
    by (simp add: calculateISO7064Check_def)
  have "(11 - r) mod 10 \<noteq> 10"
    using mod_less_divisor [of 10 "11 - r"] by linarith
  then show "calculateISO7064Check input
        = Inr (if (11 - r) mod 10 = 10 then ''X'' else [digitChar ((11 - r) mod 10)])"
    using c by (simp add: renderCheck_def natToString_digit)
next
  show "concat (map renderCheck digits10) = ''0123456789''"
    by (rule render_table)
next
  show "renderCheck 10 = ''X''"
    by (simp add: renderCheck_def)
next
  assume "v < 10"
  then show "renderCheck v = [digitChar v]"
    by (simp add: renderCheck_def natToString_digit)
next
  show "calculateISO7064Check ''RS2026GINSWG000001'' \<noteq> Inr ''X''"
    by (simp add: example_check)
next
  show "\<not> validateCertificateNumber ''RS-2026-G-IN-SWG-000001-X''"
    by (simp add: cert_eval iso_eval char_eval)
qed

theorem check_value_rendering_witness:
  "iso7064Loop 10 (toUpperCase ''RS2026GINSWG000001'') = Inr 3
   \<and> calculateISO7064Check ''RS2026GINSWG000001'' = Inr (renderCheck ((11 - 3) mod 10))
   \<and> (8::nat) < 10 \<and> renderCheck 8 = [digitChar 8]"
proof -
  have v: "(8::nat) < 10" by simp
  note t = check_value_rendering [of "''RS2026GINSWG000001''" 3 8]
  from t example_remainder v show ?thesis by blast
qed

text \<open>
  C6. On year 2026, level gold, country IN, issuer code SWG and serial 1,
  \<open>generateCertificateNumber\<close> returns \<open>RS-2026-G-IN-SWG-000001-8\<close>: the check character the
  program computes for \<open>RS2026GINSWG000001\<close> is 8, where its documentation shows 7.
\<close>

theorem generate_example_value:
  "generateCertificateNumber \<lparr> year = Integer 2026, level = gold, country = ''IN'',
      issuerCode = ''SWG'', serial = Integer 1 \<rparr> = Inr ''RS-2026-G-IN-SWG-000001-8''"
  by (simp add: cert_eval iso_eval char_eval)

section \<open>Properties of the protocol enforcement\<close>

lemma code_inj: "code a = code b \<Longrightarrow> a = b"
  by (simp add: code_def)

lemma code_lowerChar: "hasLower c \<Longrightarrow> code (lowerChar c) = code c + 32"
  by (auto simp: lowerChar_def hasLower_def code_def)

lemma lowerChar_fixed: "\<not> hasLower c \<Longrightarrow> lowerChar c = c"
  by (simp add: lowerChar_def)

lemma sameLetter_lower: "sameLetter a b \<Longrightarrow> lowerChar a = lowerChar b"
proof -
  have up: "lowerChar x = lowerChar y" if "hasLower x" "code y = code x + 32" for x y
  proof -
    have "\<not> hasLower y" using that by (auto simp: hasLower_def)
    then have "lowerChar y = y" by (rule lowerChar_fixed)
    moreover have "code (lowerChar x) = code y" using that by (simp add: code_lowerChar)
    ultimately show ?thesis by (simp add: code_inj)
  qed
  assume "sameLetter a b"
  then show ?thesis unfolding sameLetter_def using up [of a b] up [of b a] by auto
qed

lemma caseVariant_lower: "caseVariant f f' \<Longrightarrow> toLowerCase f = toLowerCase f'"
  unfolding caseVariant_def toLowerCase_def
  by (induction rule: list_all2_induct) (auto dest: sameLetter_lower)

lemma forbiddenName_isForbidden: "forbiddenName k \<Longrightarrow> isForbiddenField k"
  by (auto simp: forbiddenName_def isForbiddenField_def list_ex_iff dest: caseVariant_lower)

lemma lowered_denylist:
  "map toLowerCase FORBIDDEN_FIELDS =
    [''email'', ''phone'', ''mobile'', ''address'', ''dateofbirth'', ''dob'', ''birthdate'',
     ''gender'', ''sex'', ''age'', ''aadhaarnumber'', ''aadhaar'', ''pannumber'', ''pan'',
     ''passport'', ''passportnumber'', ''drivinglicense'', ''licensenumber'',
     ''socialsecuritynumber'', ''ssn'', ''nationalid'', ''voterid'', ''testscore'',
     ''score'', ''hazardscore'', ''practicalscore'', ''theoryscore'', ''grade'', ''marks'',
     ''bankaccount'', ''accountnumber'', ''ifsc'', ''upi'', ''creditcard'', ''salary'',
     ''income'', ''internalriderid'', ''riderid'', ''internalid'', ''externalid'',
     ''employeeid'', ''staffid'', ''location'', ''gps'', ''coordinates'', ''homeaddress'',
     ''workaddress'', ''photo'', ''photograph'', ''fingerprint'', ''biometric'', ''faceid'']"
  by (simp add: FORBIDDEN_FIELDS_def char_eval)

lemma isForbiddenField_iff:
  "isForbiddenField f \<longleftrightarrow> toLowerCase f \<in> set
    [''email'', ''phone'', ''mobile'', ''address'', ''dateofbirth'', ''dob'', ''birthdate'',
     ''gender'', ''sex'', ''age'', ''aadhaarnumber'', ''aadhaar'', ''pannumber'', ''pan'',
     ''passport'', ''passportnumber'', ''drivinglicense'', ''licensenumber'',
     ''socialsecuritynumber'', ''ssn'', ''nationalid'', ''voterid'', ''testscore'',
     ''score'', ''hazardscore'', ''practicalscore'', ''theoryscore'', ''grade'', ''marks'',
     ''bankaccount'', ''accountnumber'', ''ifsc'', ''upi'', ''creditcard'', ''salary'',
     ''income'', ''internalriderid'', ''riderid'', ''internalid'', ''externalid'',
     ''employeeid'', ''staffid'', ''location'', ''gps'', ''coordinates'', ''homeaddress'',
     ''workaddress'', ''photo'', ''photograph'', ''fingerprint'', ''biometric'', ''faceid'']"
proof -
  have "isForbiddenField f \<longleftrightarrow> toLowerCase f \<in> set (map toLowerCase FORBIDDEN_FIELDS)"
    unfolding isForbiddenField_def Let_def list_ex_iff set_map image_iff by metis
  then show ?thesis by (simp only: lowered_denylist)
qed

lemma allowed_not_forbidden:
  "\<not> isForbiddenField ''givenName''" "\<not> isForbiddenField ''familyName''"
  "\<not> isForbiddenField ''level''" "\<not> isForbiddenField ''validFrom''"
  "\<not> isForbiddenField ''validUntil''"
  by (simp_all add: isForbiddenField_iff char_eval)

lemmas detect_eval = detectForbiddenFields_def nestedForbidden_def Object_keys_def getProp_def
  isForbiddenField_iff

text \<open>
  C3. For two names that differ only in letter case, \<open>isForbiddenField\<close> gives the same
  answer; \<open>isAllowedField\<close> holds exactly of the five names as they are written.
\<close>

theorem field_classification_case:
  "(caseVariant f f' \<longrightarrow> isForbiddenField f' = isForbiddenField f)
   \<and> (isAllowedField f \<longleftrightarrow>
        f \<in> {''givenName'', ''familyName'', ''level'', ''validFrom'', ''validUntil''})"
  by (auto simp: isForbiddenField_def isAllowedField_def ALLOWED_PUBLIC_FIELDS_def
      dest: caseVariant_lower)

theorem field_classification_case_witness:
  "caseVariant ''email'' ''EMail'' \<and> isForbiddenField ''EMail'' = isForbiddenField ''email''
   \<and> isForbiddenField ''email''"
proof -
  have h: "caseVariant ''email'' ''EMail''"
    by (simp add: caseVariant_def sameLetter_def char_eval)
  have e: "isForbiddenField ''email''"
    by (simp add: isForbiddenField_iff char_eval)
  from field_classification_case [of "''email''" "''EMail''"] h
  have "isForbiddenField ''EMail'' = isForbiddenField ''email''" by blast
  with h e show ?thesis by simp
qed

theorem allowlist_case_counterexample:
  "caseVariant ''givenName'' ''GIVENNAME''
   \<and> isAllowedField ''givenName'' \<and> \<not> isAllowedField ''GIVENNAME''"
  by (simp add: caseVariant_def sameLetter_def isAllowedField_def ALLOWED_PUBLIC_FIELDS_def char_eval)

lemma checkAttributes_result:
  "checkAttributes newDate gn fn lv vf vu = Inr r \<Longrightarrow>
     r = [(''givenName'', gn), (''familyName'', fn), (''level'', lv), (''validFrom'', vf),
          (''validUntil'', vu)]"
  by (simp add: checkAttributes_def split: if_splits jsval.splits)

lemma five_fields_clean:
  "detectForbiddenFields [(''givenName'', gn), (''familyName'', fn), (''level'', lv),
     (''validFrom'', vf), (''validUntil'', vu)] = []"
  by (simp add: detectForbiddenFields_def nestedForbidden_def Object_keys_def getProp_def
      allowed_not_forbidden)

lemma enforce_success:
  assumes "enforcePublicAttributesOnly newDate data = Inr r"
  shows "detectForbiddenFields data = []"
    and "checkAttributes newDate (getProp data ''givenName'') (getProp data ''familyName'')
            (getProp data ''level'') (getProp data ''validFrom'') (getProp data ''validUntil'') = Inr r"
proof -
  show d: "detectForbiddenFields data = []"
    using assms by (cases "detectForbiddenFields data") (simp_all add: enforcePublicAttributesOnly_def)
  show "checkAttributes newDate (getProp data ''givenName'') (getProp data ''familyName'')
            (getProp data ''level'') (getProp data ''validFrom'') (getProp data ''validUntil'') = Inr r"
    using assms d by (simp add: enforcePublicAttributesOnly_def)
qed

text \<open>A valid record that carries two further fields, neither of them forbidden.\<close>

lemma sample_dates:
  "dateOnlyUTC ''2026-01-15'' = Some 1768435200000"
  "dateOnlyUTC ''2028-01-15'' = Some 1831507200000"
  by (simp_all add: date_eval char_eval)

lemma sample_check:
  "checkAttributes dateOnlyUTC (VStr ''Rahul'') (VStr ''Kumar'') (VStr ''gold'')
     (VStr ''2026-01-15'') (VStr ''2028-01-15'')
   = Inr [(''givenName'', VStr ''Rahul''), (''familyName'', VStr ''Kumar''),
          (''level'', VStr ''gold''), (''validFrom'', VStr ''2026-01-15''),
          (''validUntil'', VStr ''2028-01-15'')]"
proof -
  have names: "validateName (VStr ''Rahul'')" "validateName (VStr ''Kumar'')"
    by (simp_all add: validateName_def isControl_def hasHtmlTag_def isTrimmed_def char_eval)
  have dates: "validateISODate dateOnlyUTC (VStr ''2026-01-15'')"
    "validateISODate dateOnlyUTC (VStr ''2028-01-15'')"
    by (simp_all add: validateISODate_def sample_dates date_eval char_eval)
  show ?thesis
    by (simp add: checkAttributes_def isMissing_def names dates sample_dates validateLevel_def
        dateLe_def)
qed

lemma sample_enforced:
  "enforcePublicAttributesOnly dateOnlyUTC
     [(''givenName'', VStr ''Rahul''), (''nickname'', VStr ''Rocky''),
      (''familyName'', VStr ''Kumar''), (''level'', VStr ''gold''),
      (''validFrom'', VStr ''2026-01-15''), (''shirt'', VNum (Integer 42)),
      (''validUntil'', VStr ''2028-01-15'')]
   = Inr [(''givenName'', VStr ''Rahul''), (''familyName'', VStr ''Kumar''),
          (''level'', VStr ''gold''), (''validFrom'', VStr ''2026-01-15''),
          (''validUntil'', VStr ''2028-01-15'')]"
proof -
  let ?d = "[(''givenName'', VStr ''Rahul''), (''nickname'', VStr ''Rocky''),
      (''familyName'', VStr ''Kumar''), (''level'', VStr ''gold''),
      (''validFrom'', VStr ''2026-01-15''), (''shirt'', VNum (Integer 42)),
      (''validUntil'', VStr ''2028-01-15'')]"
  have "detectForbiddenFields ?d = []"
    by (simp add: detect_eval char_eval)
  moreover have "getProp ?d ''givenName'' = VStr ''Rahul''"
    "getProp ?d ''familyName'' = VStr ''Kumar''" "getProp ?d ''level'' = VStr ''gold''"
    "getProp ?d ''validFrom'' = VStr ''2026-01-15''"
    "getProp ?d ''validUntil'' = VStr ''2028-01-15''"
    by (simp_all add: getProp_def)
  ultimately show ?thesis
    by (simp add: enforcePublicAttributesOnly_def sample_check)
qed

text \<open>
  C1. When \<open>enforcePublicAttributesOnly\<close> returns, the object returned has exactly the five
  fields \<open>givenName\<close>, \<open>familyName\<close>, \<open>level\<close>, \<open>validFrom\<close>, \<open>validUntil\<close>, each with the
  value it has in the input, whatever other fields the input carried.
\<close>

theorem enforce_returns_five_fields:
  assumes "enforcePublicAttributesOnly newDate data = Inr r"
  shows "Object_keys r = [''givenName'', ''familyName'', ''level'', ''validFrom'', ''validUntil'']
         \<and> (\<forall>k \<in> set ALLOWED_PUBLIC_FIELDS. getProp r k = getProp data k)"
proof -
  have "r = [(''givenName'', getProp data ''givenName''), (''familyName'', getProp data ''familyName''),
             (''level'', getProp data ''level''), (''validFrom'', getProp data ''validFrom''),
             (''validUntil'', getProp data ''validUntil'')]"
    using enforce_success(2) [OF assms] by (rule checkAttributes_result)
  then show ?thesis
    by (simp add: Object_keys_def ALLOWED_PUBLIC_FIELDS_def getProp_def)
qed

theorem enforce_returns_five_fields_witness:
  "enforcePublicAttributesOnly dateOnlyUTC
     [(''givenName'', VStr ''Rahul''), (''nickname'', VStr ''Rocky''),
      (''familyName'', VStr ''Kumar''), (''level'', VStr ''gold''),
      (''validFrom'', VStr ''2026-01-15''), (''shirt'', VNum (Integer 42)),
      (''validUntil'', VStr ''2028-01-15'')]
   = Inr [(''givenName'', VStr ''Rahul''), (''familyName'', VStr ''Kumar''),
          (''level'', VStr ''gold''), (''validFrom'', VStr ''2026-01-15''),
          (''validUntil'', VStr ''2028-01-15'')]
   \<and> Object_keys [(''givenName'', VStr ''Rahul''), (''familyName'', VStr ''Kumar''),
          (''level'', VStr ''gold''), (''validFrom'', VStr ''2026-01-15''),
          (''validUntil'', VStr ''2028-01-15'')]
       = [''givenName'', ''familyName'', ''level'', ''validFrom'', ''validUntil'']"
  using enforce_returns_five_fields [OF sample_enforced] sample_enforced by simp

text \<open>
  C9. \<open>enforcePublicAttributesOnly\<close> is idempotent: applied to an object it has returned, it
  returns that object again.
\<close>

theorem enforce_idempotent:
  assumes "enforcePublicAttributesOnly newDate data = Inr r"
  shows "enforcePublicAttributesOnly newDate r = Inr r"
proof -
  let ?gn = "getProp data ''givenName''" and ?fn = "getProp data ''familyName''"
  let ?lv = "getProp data ''level''" and ?vf = "getProp data ''validFrom''"
  let ?vu = "getProp data ''validUntil''"
  have c: "checkAttributes newDate ?gn ?fn ?lv ?vf ?vu = Inr r"
    using assms by (rule enforce_success(2))
  then have r: "r = [(''givenName'', ?gn), (''familyName'', ?fn), (''level'', ?lv),
                     (''validFrom'', ?vf), (''validUntil'', ?vu)]"
    by (rule checkAttributes_result)
  have "detectForbiddenFields r = []"
    unfolding r by (rule five_fields_clean)
  moreover have "getProp r ''givenName'' = ?gn" "getProp r ''familyName'' = ?fn"
    "getProp r ''level'' = ?lv" "getProp r ''validFrom'' = ?vf" "getProp r ''validUntil'' = ?vu"
    unfolding r by (simp_all add: getProp_def)
  ultimately show ?thesis
    using c by (simp add: enforcePublicAttributesOnly_def)
qed

theorem enforce_idempotent_witness:
  "enforcePublicAttributesOnly dateOnlyUTC
     [(''givenName'', VStr ''Rahul''), (''nickname'', VStr ''Rocky''),
      (''familyName'', VStr ''Kumar''), (''level'', VStr ''gold''),
      (''validFrom'', VStr ''2026-01-15''), (''shirt'', VNum (Integer 42)),
      (''validUntil'', VStr ''2028-01-15'')]
   = Inr [(''givenName'', VStr ''Rahul''), (''familyName'', VStr ''Kumar''),
          (''level'', VStr ''gold''), (''validFrom'', VStr ''2026-01-15''),
          (''validUntil'', VStr ''2028-01-15'')]
   \<and> enforcePublicAttributesOnly dateOnlyUTC
       [(''givenName'', VStr ''Rahul''), (''familyName'', VStr ''Kumar''),
        (''level'', VStr ''gold''), (''validFrom'', VStr ''2026-01-15''),
        (''validUntil'', VStr ''2028-01-15'')]
     = Inr [(''givenName'', VStr ''Rahul''), (''familyName'', VStr ''Kumar''),
            (''level'', VStr ''gold''), (''validFrom'', VStr ''2026-01-15''),
            (''validUntil'', VStr ''2028-01-15'')]"
  using enforce_idempotent [OF sample_enforced] sample_enforced by simp

lemma find_first_filter: "filter P xs \<noteq> [] \<Longrightarrow> find P xs = Some (hd (filter P xs))"
  by (induction xs) auto

lemma forbidden_key_detected:
  "list_ex forbiddenName ks \<Longrightarrow> filter isForbiddenField ks \<noteq> []"
  by (auto simp: list_ex_iff filter_empty_conv dest: forbiddenName_isForbidden)

lemma forbiddenInside_detected:
  "forbiddenInside data container \<Longrightarrow> nestedForbidden data container \<noteq> []"
  by (auto simp: forbiddenInside_def nestedForbidden_def split: jsval.splits
      dest: forbidden_key_detected)

lemma containsForbidden_detected:
  "containsForbidden data \<Longrightarrow> detectForbiddenFields data \<noteq> []"
  by (auto simp: containsForbidden_def detectForbiddenFields_def
      dest: forbidden_key_detected forbiddenInside_detected)

lemma enforce_violation:
  "detectForbiddenFields data \<noteq> [] \<Longrightarrow>
     enforcePublicAttributesOnly newDate data
       = Inl (ProtocolViolationError (hd (detectForbiddenFields data))
               (violationMessage (detectForbiddenFields data)))"
  by (cases "detectForbiddenFields data") (simp_all add: enforcePublicAttributesOnly_def)

lemma scenario_detect:
  "detectForbiddenFields
     [(''givenName'', VStr ''R''), (''familyName'', VStr ''K''), (''level'', VStr ''gold''),
      (''validFrom'', VStr ''2026-01-01''), (''validUntil'', VStr ''2026-01-01''),
      (''email'', VStr ''x@y.com'')] = [''email'']"
  by (simp add: detect_eval char_eval)

text \<open>
  C2. An input that contains a forbidden field, in any character case, at top level or
  inside \<open>publicAttributes\<close> or \<open>attributes\<close>, is rejected with a protocol violation that
  names the first field found, whatever else is missing or invalid; a forbidden field at
  top level is found before the nested ones. So the record with the field \<open>email\<close> and two
  equal dates is rejected for \<open>email\<close>.
\<close>

theorem forbidden_field_rejected:
  assumes "containsForbidden data"
  shows "detectForbiddenFields data \<noteq> []
    \<and> enforcePublicAttributesOnly newDate data
        = Inl (ProtocolViolationError (hd (detectForbiddenFields data))
                (violationMessage (detectForbiddenFields data)))
    \<and> (list_ex forbiddenName (Object_keys data) \<longrightarrow>
          find isForbiddenField (Object_keys data) = Some (hd (detectForbiddenFields data)))
    \<and> enforcePublicAttributesOnly newDate
          [(''givenName'', VStr ''R''), (''familyName'', VStr ''K''), (''level'', VStr ''gold''),
           (''validFrom'', VStr ''2026-01-01''), (''validUntil'', VStr ''2026-01-01''),
           (''email'', VStr ''x@y.com'')]
        = Inl (ProtocolViolationError ''email'' (violationMessage [''email'']))"
proof (intro conjI impI)
  show d: "detectForbiddenFields data \<noteq> []"
    using assms by (rule containsForbidden_detected)
  then show "enforcePublicAttributesOnly newDate data
        = Inl (ProtocolViolationError (hd (detectForbiddenFields data))
                (violationMessage (detectForbiddenFields data)))"
    by (rule enforce_violation)
next
  assume "list_ex forbiddenName (Object_keys data)"
  then have f: "filter isForbiddenField (Object_keys data) \<noteq> []"
    by (rule forbidden_key_detected)
  then have "hd (detectForbiddenFields data) = hd (filter isForbiddenField (Object_keys data))"
    by (simp add: detectForbiddenFields_def)
  with f show "find isForbiddenField (Object_keys data) = Some (hd (detectForbiddenFields data))"
    by (simp add: find_first_filter)
next
  show "enforcePublicAttributesOnly newDate
          [(''givenName'', VStr ''R''), (''familyName'', VStr ''K''), (''level'', VStr ''gold''),
           (''validFrom'', VStr ''2026-01-01''), (''validUntil'', VStr ''2026-01-01''),
           (''email'', VStr ''x@y.com'')]
        = Inl (ProtocolViolationError ''email'' (violationMessage [''email'']))"
    by (simp add: enforcePublicAttributesOnly_def scenario_detect)
qed

lemma forbiddenNameI:
  "f \<in> set FORBIDDEN_FIELDS \<Longrightarrow> caseVariant f k \<Longrightarrow> forbiddenName k"
  by (auto simp: forbiddenName_def list_ex_iff)

lemma nested_sample_names: "forbiddenName ''EMail''" "forbiddenName ''SSN''"
proof -
  show "forbiddenName ''EMail''"
    by (rule forbiddenNameI [of "''email''"])
      (simp_all add: FORBIDDEN_FIELDS_def caseVariant_def sameLetter_def char_eval)
  show "forbiddenName ''SSN''"
    by (rule forbiddenNameI [of "''ssn''"])
      (simp_all add: FORBIDDEN_FIELDS_def caseVariant_def sameLetter_def char_eval)
qed

lemma nested_sample_forbidden:
  "containsForbidden [(''level'', VStr ''gold''), (''EMail'', VStr ''x@y.com''),
                      (''attributes'', VObj [(''SSN'', VNum (Integer 1))])]"
  "list_ex forbiddenName (Object_keys [(''level'', VStr ''gold''), (''EMail'', VStr ''x@y.com''),
                      (''attributes'', VObj [(''SSN'', VNum (Integer 1))])])"
  by (simp_all add: containsForbidden_def Object_keys_def nested_sample_names)

lemma nested_sample_detect:
  "detectForbiddenFields [(''level'', VStr ''gold''), (''EMail'', VStr ''x@y.com''),
                      (''attributes'', VObj [(''SSN'', VNum (Integer 1))])]
   = [''EMail'', ''attributes.SSN'']"
  by (simp add: detect_eval char_eval)

theorem forbidden_field_rejected_witness:
  "containsForbidden [(''level'', VStr ''gold''), (''EMail'', VStr ''x@y.com''),
                      (''attributes'', VObj [(''SSN'', VNum (Integer 1))])]
   \<and> list_ex forbiddenName (Object_keys [(''level'', VStr ''gold''), (''EMail'', VStr ''x@y.com''),
                      (''attributes'', VObj [(''SSN'', VNum (Integer 1))])])
   \<and> enforcePublicAttributesOnly dateOnlyUTC
        [(''level'', VStr ''gold''), (''EMail'', VStr ''x@y.com''),
         (''attributes'', VObj [(''SSN'', VNum (Integer 1))])]
      = Inl (ProtocolViolationError ''EMail'' (violationMessage [''EMail'', ''attributes.SSN'']))
   \<and> find isForbiddenField (Object_keys [(''level'', VStr ''gold''), (''EMail'', VStr ''x@y.com''),
                      (''attributes'', VObj [(''SSN'', VNum (Integer 1))])]) = Some ''EMail''"
  using forbidden_field_rejected [OF nested_sample_forbidden(1), of dateOnlyUTC]
    nested_sample_forbidden nested_sample_detect
  by simp

section \<open>Properties of the Damm check\<close>

lemma alphabet_check:
  "list_all (\<lambda>c. upperChar c = [c] \<and> \<not> isHyphenOrSpace c) VERIFICATION_CODE_ALPHABET"
  by (simp add: VERIFICATION_CODE_ALPHABET_def isHyphenOrSpace_def char_eval)

lemma alphabet_digit_check:
  "list_all (\<lambda>c. charToDigit c = Inr (dammDigit c) \<and> dammDigit c < 10) VERIFICATION_CODE_ALPHABET"
  by (simp add: VERIFICATION_CODE_ALPHABET_def dammDigit_def charToDigit_def char_eval)

lemma damm_table_shape:
  "length DAMM_TABLE = 10" "\<forall>row \<in> set DAMM_TABLE. length row = 10 \<and> (\<forall>x \<in> set row. x < 10)"
  by (simp_all add: DAMM_TABLE_def)

lemma damm_rows_distinct: "\<forall>row \<in> set DAMM_TABLE. distinct row"
  by (simp add: DAMM_TABLE_def)

lemma digits10_iff: "d \<in> set digits10 \<longleftrightarrow> d < 10"
  unfolding digits10_def by (simp) arith

lemma upt_10: "[0 ..< 10] = digits10"
  unfolding digits10_def by (simp add: upt_rec)

lemma damm_columns_distinct:
  "list_all (\<lambda>d. distinct (map (\<lambda>row. row ! d) DAMM_TABLE)) digits10"
  by (simp add: DAMM_TABLE_def digits10_def)

lemma damm_anti_check:
  "list_all (\<lambda>i. list_all (\<lambda>a. list_all (\<lambda>b.
     a = b \<or> dammStep (dammStep i a) b \<noteq> dammStep (dammStep i b) a) digits10) digits10) digits10"
  by (simp add: DAMM_TABLE_def dammStep_def digits10_def)


lemma alphabet_upper: "c \<in> set VERIFICATION_CODE_ALPHABET \<Longrightarrow> upperChar c = [c]"
  using alphabet_check by (simp add: list_all_iff)

lemma alphabet_kept: "c \<in> set VERIFICATION_CODE_ALPHABET \<Longrightarrow> \<not> isHyphenOrSpace c"
  using alphabet_check by (simp add: list_all_iff)

lemma alphabet_digit:
  "c \<in> set VERIFICATION_CODE_ALPHABET \<Longrightarrow> charToDigit c = Inr (dammDigit c)"
  "c \<in> set VERIFICATION_CODE_ALPHABET \<Longrightarrow> dammDigit c < 10"
  using alphabet_digit_check by (simp_all add: list_all_iff)

lemma toUpperCase_alphabet:
  "set s \<subseteq> set VERIFICATION_CODE_ALPHABET \<Longrightarrow> toUpperCase s = s"
  by (induction s) (simp_all add: toUpperCase_def alphabet_upper)

lemma cleanCode_alphabet:
  assumes "set s \<subseteq> set VERIFICATION_CODE_ALPHABET"
  shows "cleanCode s = s"
proof -
  have "filter (\<lambda>ch. \<not> isHyphenOrSpace ch) s = s"
    using assms by (auto simp: filter_id_conv dest: alphabet_kept)
  with assms show ?thesis by (simp add: cleanCode_def toUpperCase_alphabet)
qed

lemma damm_lookup:
  assumes "i < 10" "d < 10"
  shows "at DAMM_TABLE i = Some (DAMM_TABLE ! i)"
    and "at (DAMM_TABLE ! i) d = Some (dammStep i d)"
    and "dammStep i d < 10"
proof -
  have row: "DAMM_TABLE ! i \<in> set DAMM_TABLE"
    using assms(1) by (simp add: damm_table_shape(1))
  then have len: "length (DAMM_TABLE ! i) = 10" and small: "\<forall>x \<in> set (DAMM_TABLE ! i). x < 10"
    using damm_table_shape(2) by blast+
  show "at DAMM_TABLE i = Some (DAMM_TABLE ! i)"
    using assms(1) by (simp add: at_def damm_table_shape(1))
  show "at (DAMM_TABLE ! i) d = Some (dammStep i d)"
    using assms(2) len by (simp add: at_def dammStep_def)
  show "dammStep i d < 10"
    using assms(2) len small by (simp add: dammStep_def)
qed

lemma damm_row_inj:
  assumes "i < 10" "a < 10" "b < 10" "dammStep i a = dammStep i b"
  shows "a = b"
proof -
  have row: "DAMM_TABLE ! i \<in> set DAMM_TABLE"
    using assms(1) by (simp add: damm_table_shape(1))
  then have "distinct (DAMM_TABLE ! i)" and "length (DAMM_TABLE ! i) = 10"
    using damm_rows_distinct damm_table_shape(2) by blast+
  then show ?thesis
    using assms by (simp add: dammStep_def nth_eq_iff_index_eq)
qed

lemma damm_column_inj:
  assumes "i < 10" "j < 10" "d < 10" "dammStep i d = dammStep j d"
  shows "i = j"
proof -
  let ?col = "map (\<lambda>row. row ! d) DAMM_TABLE"
  have dist: "distinct ?col"
    using damm_columns_distinct assms(3) unfolding list_all_iff Ball_def digits10_iff by blast
  have eq: "?col ! i = ?col ! j"
    using assms by (simp add: dammStep_def damm_table_shape(1))
  have "(?col ! i = ?col ! j) = (i = j)"
    by (rule nth_eq_iff_index_eq [OF dist]) (simp_all add: damm_table_shape(1) assms)
  with eq show ?thesis by blast
qed

lemma damm_anti:
  assumes "i < 10" "a < 10" "b < 10"
    "dammStep (dammStep i a) b = dammStep (dammStep i b) a"
  shows "a = b"
  using damm_anti_check assms unfolding list_all_iff Ball_def digits10_iff by blast

text \<open>The table run over a list of digits.\<close>

lemma damm_run_range:
  "i < 10 \<Longrightarrow> \<forall>d \<in> set ds. d < 10 \<Longrightarrow> foldl dammStep i ds < 10"
  by (induction ds arbitrary: i) (simp_all add: damm_lookup(3))

lemma damm_run_inj:
  "i < 10 \<Longrightarrow> j < 10 \<Longrightarrow> \<forall>d \<in> set ds. d < 10 \<Longrightarrow> i \<noteq> j \<Longrightarrow>
     foldl dammStep i ds \<noteq> foldl dammStep j ds"
proof (induction ds arbitrary: i j)
  case Nil
  then show ?case by simp
next
  case (Cons d ds)
  have "dammStep i d \<noteq> dammStep j d"
    using Cons.prems damm_column_inj [of i j d] by auto
  moreover have "dammStep i d < 10" "dammStep j d < 10"
    using Cons.prems by (simp_all add: damm_lookup(3))
  ultimately show ?case
    using Cons.IH [of "dammStep i d" "dammStep j d"] Cons.prems by simp
qed

lemma damm_run_single:
  "r < 10 \<Longrightarrow> \<forall>d \<in> set ds. d < 10 \<Longrightarrow> i < length ds \<Longrightarrow> x < 10 \<Longrightarrow> x \<noteq> ds ! i \<Longrightarrow>
     foldl dammStep r (ds[i := x]) \<noteq> foldl dammStep r ds"
proof (induction ds arbitrary: i r)
  case Nil
  then show ?case by simp
next
  case (Cons d ds)
  show ?case
  proof (cases i)
    case 0
    have "dammStep r x \<noteq> dammStep r d"
      using Cons.prems 0 damm_row_inj [of r x d] by auto
    moreover have "dammStep r x < 10" "dammStep r d < 10"
      using Cons.prems by (simp_all add: damm_lookup(3))
    ultimately show ?thesis
      using 0 Cons.prems damm_run_inj [of "dammStep r x" "dammStep r d" ds] by simp
  next
    case (Suc k)
    have "dammStep r d < 10"
      using Cons.prems by (simp add: damm_lookup(3))
    then show ?thesis
      using Suc Cons.prems Cons.IH [of "dammStep r d" k] by simp
  qed
qed

lemma damm_run_swap:
  "r < 10 \<Longrightarrow> \<forall>d \<in> set ds. d < 10 \<Longrightarrow> Suc i < length ds \<Longrightarrow> ds ! i \<noteq> ds ! Suc i \<Longrightarrow>
     foldl dammStep r (ds[i := ds ! Suc i, Suc i := ds ! i]) \<noteq> foldl dammStep r ds"
proof (induction ds arbitrary: i r)
  case Nil
  then show ?case by simp
next
  case (Cons d ds)
  show ?case
  proof (cases i)
    case 0
    then obtain e es where ds: "ds = e # es"
      using Cons.prems by (cases ds) auto
    have small: "d < 10" "e < 10" "\<forall>x \<in> set es. x < 10"
      using Cons.prems ds by simp_all
    have "d \<noteq> e" using Cons.prems 0 ds by simp
    then have "dammStep (dammStep r e) d \<noteq> dammStep (dammStep r d) e"
      using damm_anti [of r e d] small Cons.prems(1) by auto
    moreover have "dammStep (dammStep r e) d < 10" "dammStep (dammStep r d) e < 10"
      using small Cons.prems(1) by (simp_all add: damm_lookup(3))
    ultimately show ?thesis
      using 0 ds small damm_run_inj [of "dammStep (dammStep r e) d" "dammStep (dammStep r d) e" es]
      by simp
  next
    case (Suc k)
    have "dammStep r d < 10"
      using Cons.prems by (simp add: damm_lookup(3))
    then show ?thesis
      using Suc Cons.prems Cons.IH [of "dammStep r d" k] by simp
  qed
qed

text \<open>Validation of a string over the alphabet is the run of the table over its digits.\<close>

lemma validateDammLoop_alphabet:
  "i < 10 \<Longrightarrow> set s \<subseteq> set VERIFICATION_CODE_ALPHABET \<Longrightarrow>
     validateDammLoop i s = Inr (foldl dammStep i (map dammDigit s) = 0)"
proof (induction s arbitrary: i)
  case Nil
  then show ?case by simp
next
  case (Cons c s)
  have c: "charToDigit c = Inr (dammDigit c)" "dammDigit c < 10"
    using Cons.prems by (simp_all add: alphabet_digit)
  have "dammStep i (dammDigit c) < 10"
    using Cons.prems c by (simp add: damm_lookup(3))
  then show ?case
    using Cons c by (simp add: damm_lookup)
qed

lemma validateVerificationCode_alphabet:
  assumes "length s = 8" "set s \<subseteq> set VERIFICATION_CODE_ALPHABET"
  shows "validateVerificationCode s \<longleftrightarrow> foldl dammStep 0 (map dammDigit s) = 0"
  using assms
  by (simp add: validateVerificationCode_def cleanCode_alphabet validateDammFull_def
      toUpperCase_alphabet validateDammLoop_alphabet)


lemmas damm_eval = validateVerificationCode_def cleanCode_def isHyphenOrSpace_def
  validateDammFull_def verifyDamm_def calculateDammCheck_def charToDigit_def
  VERIFICATION_CODE_ALPHABET_def DAMM_TABLE_def at_def

lemma damm_examples:
  "validateVerificationCode ''ABCDEFGG''"
  "\<not> validateVerificationCode ''BBCDEFGG''"
  "\<not> validateVerificationCode ''BACDEFGG''"
  "validateVerificationCode ''AAAAAAAA''"
  "validateVerificationCode ''MAAAAAAA''"
  "validateVerificationCode ''AMAAAAAA''"
  "validateVerificationCode ''AAAAAAAM''"
  "validateDammFull ''AAAAAAAM''"
  by (simp_all add: damm_eval char_eval)

lemma damm_example_digits:
  "charToDigit CHR ''A'' = Inr 0" "charToDigit CHR ''B'' = Inr 1" "charToDigit CHR ''M'' = Inr 0"
  by (simp_all add: damm_eval char_eval)

lemma damm_example_check:
  "calculateDammCheck ''AAAAAAA'' = Inr ''A''" "\<not> verifyDamm ''AAAAAAA'' ''M''"
  by (simp_all add: damm_eval upt_10 digits10_def char_eval)

text \<open>
  C4, as amended. In an accepted code of 8 characters of the alphabet, replacing one
  character by an alphabet character that \<open>charToDigit\<close> maps to another digit gives a code
  that is rejected, and so does swapping two adjacent characters that \<open>charToDigit\<close> maps
  to different digits.
\<close>

theorem damm_detects_digit_errors:
  assumes "length s = 8" and "set s \<subseteq> set VERIFICATION_CODE_ALPHABET"
    and "validateVerificationCode s"
  shows "(\<forall>i c. i < 8 \<and> c \<in> set VERIFICATION_CODE_ALPHABET \<and> charToDigit c \<noteq> charToDigit (s ! i)
            \<longrightarrow> \<not> validateVerificationCode (s[i := c]))
       \<and> (\<forall>i. i < 7 \<and> charToDigit (s ! i) \<noteq> charToDigit (s ! Suc i)
            \<longrightarrow> \<not> validateVerificationCode (s[i := s ! Suc i, Suc i := s ! i]))"
proof (intro conjI allI impI)
  let ?ds = "map dammDigit s"
  have small: "\<forall>d \<in> set ?ds. d < 10"
    using assms(2) by (auto simp: alphabet_digit(2))
  have zero: "foldl dammStep 0 ?ds = 0"
    using assms by (simp add: validateVerificationCode_alphabet)
  {
    fix i c
    assume "i < 8 \<and> c \<in> set VERIFICATION_CODE_ALPHABET \<and> charToDigit c \<noteq> charToDigit (s ! i)"
    then have hi: "i < 8" and hc: "c \<in> set VERIFICATION_CODE_ALPHABET"
      and hd: "charToDigit c \<noteq> charToDigit (s ! i)" by auto
    have si: "s ! i \<in> set VERIFICATION_CODE_ALPHABET"
      using hi assms(1,2) by (auto simp: subset_iff)
    have "dammDigit c \<noteq> dammDigit (s ! i)"
      using hd alphabet_digit(1) [OF hc] alphabet_digit(1) [OF si] by simp
    then have "foldl dammStep 0 (?ds[i := dammDigit c]) \<noteq> foldl dammStep 0 ?ds"
      using damm_run_single [of 0 ?ds i "dammDigit c"] small hi assms(1) alphabet_digit(2) [OF hc]
      by simp
    moreover have "set (s[i := c]) \<subseteq> set VERIFICATION_CODE_ALPHABET"
      using hc assms(2) set_update_subset_insert [of s i c] by auto
    ultimately show "\<not> validateVerificationCode (s[i := c])"
      using assms(1) zero by (simp add: validateVerificationCode_alphabet map_update)
  }
  {
    fix i
    assume "i < 7 \<and> charToDigit (s ! i) \<noteq> charToDigit (s ! Suc i)"
    then have hi: "i < 7" and hd: "charToDigit (s ! i) \<noteq> charToDigit (s ! Suc i)" by auto
    have si: "s ! i \<in> set VERIFICATION_CODE_ALPHABET"
      and ssi: "s ! Suc i \<in> set VERIFICATION_CODE_ALPHABET"
      using hi assms(1,2) by (auto simp: subset_iff)
    have "dammDigit (s ! i) \<noteq> dammDigit (s ! Suc i)"
      using hd alphabet_digit(1) [OF si] alphabet_digit(1) [OF ssi] by simp
    then have "foldl dammStep 0 (?ds[i := ?ds ! Suc i, Suc i := ?ds ! i]) \<noteq> foldl dammStep 0 ?ds"
      using damm_run_swap [of 0 ?ds i] small hi assms(1) by simp
    moreover have "set (s[i := s ! Suc i, Suc i := s ! i]) \<subseteq> set VERIFICATION_CODE_ALPHABET"
      using si ssi assms(2)
        set_update_subset_insert [of "s[i := s ! Suc i]" "Suc i" "s ! i"]
        set_update_subset_insert [of s i "s ! Suc i"] by auto
    ultimately show "\<not> validateVerificationCode (s[i := s ! Suc i, Suc i := s ! i])"
      using assms(1) zero hi by (simp add: validateVerificationCode_alphabet map_update)
  }
qed

theorem damm_detects_digit_errors_witness:
  "length ''ABCDEFGG'' = 8 \<and> set ''ABCDEFGG'' \<subseteq> set VERIFICATION_CODE_ALPHABET
   \<and> validateVerificationCode ''ABCDEFGG''
   \<and> CHR ''B'' \<in> set VERIFICATION_CODE_ALPHABET
   \<and> charToDigit CHR ''B'' \<noteq> charToDigit (''ABCDEFGG'' ! 0)
   \<and> \<not> validateVerificationCode (''ABCDEFGG''[0 := CHR ''B''])
   \<and> charToDigit (''ABCDEFGG'' ! 0) \<noteq> charToDigit (''ABCDEFGG'' ! Suc 0)
   \<and> \<not> validateVerificationCode (''ABCDEFGG''[0 := ''ABCDEFGG'' ! Suc 0, Suc 0 := ''ABCDEFGG'' ! 0])"
proof -
  have h: "length ''ABCDEFGG'' = 8" "set ''ABCDEFGG'' \<subseteq> set VERIFICATION_CODE_ALPHABET"
    "CHR ''B'' \<in> set VERIFICATION_CODE_ALPHABET"
    by (simp_all add: VERIFICATION_CODE_ALPHABET_def)
  have d: "charToDigit CHR ''B'' \<noteq> charToDigit (''ABCDEFGG'' ! 0)"
    "charToDigit (''ABCDEFGG'' ! 0) \<noteq> charToDigit (''ABCDEFGG'' ! Suc 0)"
    by (simp_all add: damm_example_digits)
  have a: "(0::nat) < 8" "(0::nat) < 7" by simp_all
  note t = damm_detects_digit_errors [OF h(1,2) damm_examples(1)]
  from t h(3) d(1) a(1) have "\<not> validateVerificationCode (''ABCDEFGG''[0 := CHR ''B''])"
    by blast
  moreover from t d(2) a(2)
  have "\<not> validateVerificationCode (''ABCDEFGG''[0 := ''ABCDEFGG'' ! Suc 0, Suc 0 := ''ABCDEFGG'' ! 0])"
    by blast
  ultimately show ?thesis
    using h d damm_examples(1) by blast
qed

theorem damm_folding_counterexample:
  "length ''AAAAAAAA'' = 8 \<and> set ''AAAAAAAA'' \<subseteq> set VERIFICATION_CODE_ALPHABET
   \<and> validateVerificationCode ''AAAAAAAA''
   \<and> CHR ''M'' \<in> set VERIFICATION_CODE_ALPHABET \<and> CHR ''M'' \<noteq> ''AAAAAAAA'' ! 0
   \<and> validateVerificationCode (''AAAAAAAA''[0 := CHR ''M''])
   \<and> length ''AMAAAAAA'' = 8 \<and> set ''AMAAAAAA'' \<subseteq> set VERIFICATION_CODE_ALPHABET
   \<and> validateVerificationCode ''AMAAAAAA''
   \<and> ''AMAAAAAA'' ! 0 \<noteq> ''AMAAAAAA'' ! 1
   \<and> validateVerificationCode (''AMAAAAAA''[0 := ''AMAAAAAA'' ! 1, 1 := ''AMAAAAAA'' ! 0])"
  by (simp add: damm_examples) (simp add: VERIFICATION_CODE_ALPHABET_def)

lemma alphabet_first_ten_check:
  "list_all (\<lambda>d. at VERIFICATION_CODE_ALPHABET d = Some (VERIFICATION_CODE_ALPHABET ! d)
      \<and> charToDigit (VERIFICATION_CODE_ALPHABET ! d) = Inr d
      \<and> VERIFICATION_CODE_ALPHABET ! d \<in> set (take 10 VERIFICATION_CODE_ALPHABET)) digits10"
  by (simp add: digits10_def at_def charToDigit_def VERIFICATION_CODE_ALPHABET_def char_eval)

lemma alphabet_first_ten:
  assumes "d < 10"
  shows "at VERIFICATION_CODE_ALPHABET d = Some (VERIFICATION_CODE_ALPHABET ! d)"
    and "charToDigit (VERIFICATION_CODE_ALPHABET ! d) = Inr d"
    and "VERIFICATION_CODE_ALPHABET ! d \<in> set (take 10 VERIFICATION_CODE_ALPHABET)"
  using alphabet_first_ten_check assms unfolding list_all_iff Ball_def digits10_iff by blast+

lemma damm_rows_zero: "\<forall>row \<in> set DAMM_TABLE. 0 \<in> set row"
  by (simp add: DAMM_TABLE_def)

lemma damm_zero_exists:
  assumes "r < 10"
  shows "\<exists>d < 10. dammStep r d = 0"
proof -
  have "DAMM_TABLE ! r \<in> set DAMM_TABLE"
    using assms by (simp add: damm_table_shape(1))
  then have "0 \<in> set (DAMM_TABLE ! r)" and "length (DAMM_TABLE ! r) = 10"
    using damm_rows_zero damm_table_shape(2) by blast+
  then show ?thesis
    by (auto simp: in_set_conv_nth dammStep_def)
qed

lemma dammSearch_some:
  "dammSearch r ds = Some ch \<Longrightarrow> \<forall>d \<in> set ds. d < 10 \<Longrightarrow>
     \<exists>d \<in> set ds. ch = [VERIFICATION_CODE_ALPHABET ! d]"
proof (induction ds)
  case Nil
  then show ?case by simp
next
  case (Cons d ds)
  then show ?case
    by (auto simp: alphabet_first_ten(1) split: if_splits)
qed

lemma dammSearch_finds:
  "r < 10 \<Longrightarrow> \<forall>d \<in> set ds. d < 10 \<Longrightarrow> \<exists>d \<in> set ds. dammStep r d = 0 \<Longrightarrow>
     \<exists>d \<in> set ds. dammStep r d = 0 \<and> dammSearch r ds = Some [VERIFICATION_CODE_ALPHABET ! d]"
proof (induction ds)
  case Nil
  then show ?case by simp
next
  case (Cons d ds)
  show ?case
  proof (cases "dammStep r d = 0")
    case True
    then show ?thesis
      using Cons.prems by (simp add: damm_lookup alphabet_first_ten(1))
  next
    case False
    then have "\<exists>e \<in> set ds. dammStep r e = 0 \<and> dammSearch r ds = Some [VERIFICATION_CODE_ALPHABET ! e]"
      using Cons by auto
    then show ?thesis
      using False Cons.prems by (auto simp: damm_lookup)
  qed
qed

lemma dammInterim_alphabet:
  "i < 10 \<Longrightarrow> set s \<subseteq> set VERIFICATION_CODE_ALPHABET \<Longrightarrow>
     dammInterim i s = Inr (foldl dammStep i (map dammDigit s))"
proof (induction s arbitrary: i)
  case Nil
  then show ?case by simp
next
  case (Cons c s)
  have c: "charToDigit c = Inr (dammDigit c)" "dammDigit c < 10"
    using Cons.prems by (simp_all add: alphabet_digit)
  have "dammStep i (dammDigit c) < 10"
    using Cons.prems c by (simp add: damm_lookup(3))
  then show ?case
    using Cons c by (simp add: damm_lookup)
qed

lemma calculateDammCheck_first_ten:
  assumes "calculateDammCheck input = Inr c"
  shows "c \<in> set (map (\<lambda>x. [x]) (take 10 VERIFICATION_CODE_ALPHABET))"
proof -
  obtain r where r: "dammInterim 0 (toUpperCase input) = Inr r"
    using assms by (auto simp: calculateDammCheck_def split: sum.splits)
  have small: "\<forall>d \<in> set digits10. d < 10"
    by (simp add: digits10_iff)
  show ?thesis
  proof (cases "dammSearch r digits10")
    case None
    then have "c = [VERIFICATION_CODE_ALPHABET ! 0]"
      using assms r by (simp add: calculateDammCheck_def upt_10 alphabet_first_ten(1))
    then show ?thesis
      using alphabet_first_ten(3) [of 0] by simp
  next
    case (Some ch)
    then have "c = ch"
      using assms r by (simp add: calculateDammCheck_def upt_10)
    moreover obtain d where "d \<in> set digits10" "ch = [VERIFICATION_CODE_ALPHABET ! d]"
      using dammSearch_some [OF Some small] by blast
    ultimately show ?thesis
      using alphabet_first_ten(3) [of d] by (simp add: digits10_iff)
  qed
qed

lemma calculateDammCheck_alphabet:
  assumes "set base \<subseteq> set VERIFICATION_CODE_ALPHABET"
  shows "\<exists>d < 10. dammStep (foldl dammStep 0 (map dammDigit base)) d = 0
           \<and> calculateDammCheck base = Inr [VERIFICATION_CODE_ALPHABET ! d]"
proof -
  let ?r = "foldl dammStep 0 (map dammDigit base)"
  have r: "?r < 10"
    using assms by (intro damm_run_range) (auto simp: alphabet_digit(2))
  have "\<exists>d \<in> set digits10. dammStep ?r d = 0"
    using damm_zero_exists [OF r] by (auto simp: digits10_iff)
  then obtain d where d: "d \<in> set digits10" "dammStep ?r d = 0"
    "dammSearch ?r digits10 = Some [VERIFICATION_CODE_ALPHABET ! d]"
    using dammSearch_finds [OF r, of digits10] by (auto simp: digits10_iff)
  then have "calculateDammCheck base = Inr [VERIFICATION_CODE_ALPHABET ! d]"
    using assms by (simp add: calculateDammCheck_def toUpperCase_alphabet dammInterim_alphabet upt_10)
  with d show ?thesis by (auto simp: digits10_iff)
qed

text \<open>
  C10. \<open>validateDammFull\<close> and \<open>verifyDamm\<close> can disagree: \<open>AAAAAAAM\<close> is accepted by
  \<open>validateDammFull\<close> and \<open>validateVerificationCode\<close>, while \<open>verifyDamm\<close> rejects \<open>M\<close> as the
  check character of \<open>AAAAAAA\<close>. The reason: \<open>calculateDammCheck\<close> only ever returns one of
  the first ten characters of the alphabet, while validation of a base of alphabet
  characters accepts every last character that \<open>charToDigit\<close> maps to the digit of the
  computed check character.
\<close>

theorem damm_validate_verify_disagree:
  "(\<exists>s. length s = 8 \<and> set s \<subseteq> set VERIFICATION_CODE_ALPHABET
        \<and> validateDammFull s \<and> validateVerificationCode s
        \<and> \<not> verifyDamm (take 7 s) (drop 7 s))
   \<and> (calculateDammCheck input = Inr c \<longrightarrow>
        c \<in> set (map (\<lambda>x. [x]) (take 10 VERIFICATION_CODE_ALPHABET)))
   \<and> (length base = 7 \<and> set base \<subseteq> set VERIFICATION_CODE_ALPHABET
        \<and> ch \<in> set VERIFICATION_CODE_ALPHABET \<longrightarrow>
        (validateDammFull (base @ [ch])
          \<longleftrightarrow> (\<exists>k. calculateDammCheck base = Inr [k] \<and> charToDigit ch = charToDigit k)))"
proof (intro conjI impI)
  have "length ''AAAAAAAM'' = 8 \<and> set ''AAAAAAAM'' \<subseteq> set VERIFICATION_CODE_ALPHABET
        \<and> validateDammFull ''AAAAAAAM'' \<and> validateVerificationCode ''AAAAAAAM''
        \<and> \<not> verifyDamm (take 7 ''AAAAAAAM'') (drop 7 ''AAAAAAAM'')"
    using damm_examples(7,8) damm_example_check(2) by (simp add: VERIFICATION_CODE_ALPHABET_def)
  then show "\<exists>s. length s = 8 \<and> set s \<subseteq> set VERIFICATION_CODE_ALPHABET
        \<and> validateDammFull s \<and> validateVerificationCode s
        \<and> \<not> verifyDamm (take 7 s) (drop 7 s)" by blast
next
  assume "calculateDammCheck input = Inr c"
  then show "c \<in> set (map (\<lambda>x. [x]) (take 10 VERIFICATION_CODE_ALPHABET))"
    by (rule calculateDammCheck_first_ten)
next
  assume h: "length base = 7 \<and> set base \<subseteq> set VERIFICATION_CODE_ALPHABET
        \<and> ch \<in> set VERIFICATION_CODE_ALPHABET"
  then have len: "length base = 7" and sub: "set base \<subseteq> set VERIFICATION_CODE_ALPHABET"
    and chA: "ch \<in> set VERIFICATION_CODE_ALPHABET" by auto
  let ?r = "foldl dammStep 0 (map dammDigit base)"
  have r: "?r < 10"
    using sub by (intro damm_run_range) (auto simp: alphabet_digit(2))
  obtain d where d: "d < 10" "dammStep ?r d = 0"
    "calculateDammCheck base = Inr [VERIFICATION_CODE_ALPHABET ! d]"
    using calculateDammCheck_alphabet [OF sub] by blast
  have dk: "charToDigit (VERIFICATION_CODE_ALPHABET ! d) = Inr d"
    using d(1) by (rule alphabet_first_ten(2))
  have chd: "charToDigit ch = Inr (dammDigit ch)" "dammDigit ch < 10"
    using chA by (simp_all add: alphabet_digit)
  have sub': "set (base @ [ch]) \<subseteq> set VERIFICATION_CODE_ALPHABET"
    using sub chA by simp
  have v: "validateDammFull (base @ [ch]) \<longleftrightarrow> dammStep ?r (dammDigit ch) = 0"
    using len by (simp add: validateDammFull_def toUpperCase_alphabet [OF sub']
        validateDammLoop_alphabet [OF _ sub'])
  show "validateDammFull (base @ [ch])
          \<longleftrightarrow> (\<exists>k. calculateDammCheck base = Inr [k] \<and> charToDigit ch = charToDigit k)"
  proof
    assume "validateDammFull (base @ [ch])"
    then have "dammStep ?r (dammDigit ch) = dammStep ?r d"
      using v d(2) by simp
    then have "dammDigit ch = d"
      using damm_row_inj [OF r chd(2) d(1)] by simp
    then show "\<exists>k. calculateDammCheck base = Inr [k] \<and> charToDigit ch = charToDigit k"
      using d(3) dk chd(1) by auto
  next
    assume "\<exists>k. calculateDammCheck base = Inr [k] \<and> charToDigit ch = charToDigit k"
    then have "charToDigit ch = Inr d"
      using d(3) dk by auto
    then have "dammDigit ch = d"
      using chd(1) by simp
    then show "validateDammFull (base @ [ch])"
      using v d(2) by simp
  qed
qed

theorem damm_validate_verify_disagree_witness:
  "calculateDammCheck ''AAAAAAA'' = Inr ''A''
   \<and> ''A'' \<in> set (map (\<lambda>x. [x]) (take 10 VERIFICATION_CODE_ALPHABET))
   \<and> length ''AAAAAAA'' = 7 \<and> set ''AAAAAAA'' \<subseteq> set VERIFICATION_CODE_ALPHABET
   \<and> CHR ''M'' \<in> set VERIFICATION_CODE_ALPHABET
   \<and> validateDammFull (''AAAAAAA'' @ [CHR ''M''])
   \<and> (\<exists>k. calculateDammCheck ''AAAAAAA'' = Inr [k] \<and> charToDigit CHR ''M'' = charToDigit k)"
proof -
  have h: "length ''AAAAAAA'' = 7 \<and> set ''AAAAAAA'' \<subseteq> set VERIFICATION_CODE_ALPHABET
     \<and> CHR ''M'' \<in> set VERIFICATION_CODE_ALPHABET"
    by (simp add: VERIFICATION_CODE_ALPHABET_def)
  have v: "validateDammFull (''AAAAAAA'' @ [CHR ''M''])"
    using damm_examples(8) by simp
  note t = damm_validate_verify_disagree [of "''AAAAAAA''" "''A''" "''AAAAAAA''" "CHR ''M''"]
  from t damm_example_check(1)
  have a: "''A'' \<in> set (map (\<lambda>x. [x]) (take 10 VERIFICATION_CODE_ALPHABET))" by blast
  from t h v
  have b: "\<exists>k. calculateDammCheck ''AAAAAAA'' = Inr [k] \<and> charToDigit CHR ''M'' = charToDigit k"
    by blast
  from a b h v damm_example_check(1) show ?thesis by blast
qed

section \<open>Properties of the MOD 11,10 check\<close>

lemma indexOf_char_None: "indexOf xs [c] = None \<longleftrightarrow> c \<notin> set xs"
  by (induction xs) auto

lemma iso_alphabet_check:
  "list_all (\<lambda>c. upperChar c = [c]) ISO7064_ALPHABET"
  by (simp add: ISO7064_ALPHABET_def char_eval)

lemma iso_alphabet_upper: "c \<in> set ISO7064_ALPHABET \<Longrightarrow> upperChar c = [c]"
  using iso_alphabet_check by (simp add: list_all_iff)

lemma toUpperCase_iso:
  "set s \<subseteq> set ISO7064_ALPHABET \<Longrightarrow> toUpperCase s = s"
  by (induction s) (simp_all add: toUpperCase_def iso_alphabet_upper)

lemma iso_index: "c \<in> set ISO7064_ALPHABET \<Longrightarrow> indexOf ISO7064_ALPHABET [c] = Some (isoValue c)"
  using indexOf_char_None [of ISO7064_ALPHABET c] by (auto simp: isoValue_def)

lemma iso7064Loop_alphabet:
  "set s \<subseteq> set ISO7064_ALPHABET \<Longrightarrow>
     iso7064Loop r s = Inr (foldl iso7064Step r (map isoValue s))"
  by (induction s arbitrary: r) (simp_all add: iso_index)

lemma iso7064Loop_throws:
  "(\<exists>e. iso7064Loop r s = Inl e) \<longleftrightarrow> \<not> set s \<subseteq> set ISO7064_ALPHABET"
proof (induction s arbitrary: r)
  case Nil
  then show ?case by simp
next
  case (Cons c s)
  show ?case
  proof (cases "c \<in> set ISO7064_ALPHABET")
    case True
    then show ?thesis using Cons [of "iso7064Step r (isoValue c)"] by (simp add: iso_index)
  next
    case False
    then have "indexOf ISO7064_ALPHABET [c] = None" by (simp add: indexOf_char_None)
    with False show ?thesis by simp
  qed
qed

lemma iso7064Step_turn: "iso7064Step r v = isoTurn ((r + v) mod 10)"
  by (simp add: iso7064Step_def isoTurn_def Let_def)

lemma iso_turn_check:
  "list_all (\<lambda>x. 1 \<le> isoTurn x \<and> isoTurn x \<le> 10
      \<and> list_all (\<lambda>y. x = y \<or> isoTurn x \<noteq> isoTurn y) digits10) digits10"
  by (simp add: digits10_def isoTurn_def)

lemma iso_turn_range: "x < 10 \<Longrightarrow> 1 \<le> isoTurn x \<and> isoTurn x \<le> 10"
  using iso_turn_check unfolding list_all_iff Ball_def digits10_iff by blast

lemma iso_turn_inj: "x < 10 \<Longrightarrow> y < 10 \<Longrightarrow> isoTurn x = isoTurn y \<Longrightarrow> x = y"
  using iso_turn_check unfolding list_all_iff Ball_def digits10_iff by blast

lemma iso_step_range: "1 \<le> iso7064Step r v \<and> iso7064Step r v \<le> 10"
  using iso_turn_range [of "(r + v) mod 10"] by (simp add: iso7064Step_turn)

lemma mod_add_cancel_left:
  assumes "(r + v) mod n = (r + w) mod (n::nat)"
  shows "v mod n = w mod n"
proof -
  obtain q1 q2 where "r + v + n * q1 = r + w + n * q2"
    using assms nat_mod_eq_iff [of "r + v" n "r + w"] by blast
  then have "v + n * q1 = w + n * q2" by simp
  then show ?thesis
    using nat_mod_eq_iff [of v n w] by blast
qed

lemma mod_10_inj:
  assumes "1 \<le> a" "a \<le> 10" "1 \<le> b" "b \<le> 10" "a mod 10 = b mod (10::nat)"
  shows "a = b"
proof (cases "a = 10")
  case True
  then show ?thesis using assms by (cases "b = 10") simp_all
next
  case False
  then show ?thesis using assms by (cases "b = 10") simp_all
qed

lemma iso_step_inj_value:
  assumes "iso7064Step r v = iso7064Step r w"
  shows "v mod 10 = w mod 10"
proof -
  have "(r + v) mod 10 = (r + w) mod 10"
    using assms iso_turn_inj [of "(r + v) mod 10" "(r + w) mod 10"]
    by (simp add: iso7064Step_turn)
  then show ?thesis by (rule mod_add_cancel_left)
qed

lemma iso_step_inj_remainder:
  assumes "iso7064Step r v = iso7064Step q v" "1 \<le> r" "r \<le> 10" "1 \<le> q" "q \<le> 10"
  shows "r = q"
proof -
  have "(r + v) mod 10 = (q + v) mod 10"
    using assms(1) iso_turn_inj [of "(r + v) mod 10" "(q + v) mod 10"]
    by (simp add: iso7064Step_turn)
  then have "(v + r) mod 10 = (v + q) mod 10"
    by (simp only: add.commute [of v])
  then have m: "r mod 10 = q mod 10" by (rule mod_add_cancel_left)
  from assms(2-) m show ?thesis by (rule mod_10_inj)
qed

lemma iso_run_range:
  "1 \<le> r \<Longrightarrow> r \<le> 10 \<Longrightarrow> 1 \<le> foldl iso7064Step r vs \<and> foldl iso7064Step r vs \<le> 10"
proof (induction vs arbitrary: r)
  case Nil
  then show ?case by simp
next
  case (Cons v vs)
  have "1 \<le> iso7064Step r v" "iso7064Step r v \<le> 10"
    using iso_step_range [of r v] by simp_all
  then show ?case
    using Cons.IH [of "iso7064Step r v"] by simp
qed

lemma iso_run_inj:
  "1 \<le> r \<Longrightarrow> r \<le> 10 \<Longrightarrow> 1 \<le> q \<Longrightarrow> q \<le> 10 \<Longrightarrow> r \<noteq> q \<Longrightarrow>
     foldl iso7064Step r vs \<noteq> foldl iso7064Step q vs"
proof (induction vs arbitrary: r q)
  case Nil
  then show ?case by simp
next
  case (Cons v vs)
  have "iso7064Step r v \<noteq> iso7064Step q v"
    using Cons.prems iso_step_inj_remainder [of r v q] by blast
  moreover have "1 \<le> iso7064Step r v" "iso7064Step r v \<le> 10"
    "1 \<le> iso7064Step q v" "iso7064Step q v \<le> 10"
    using iso_step_range [of r v] iso_step_range [of q v] by simp_all
  ultimately show ?case
    using Cons.IH [of "iso7064Step r v" "iso7064Step q v"] by simp
qed

lemma iso_run_single:
  "1 \<le> r \<Longrightarrow> r \<le> 10 \<Longrightarrow> i < length vs \<Longrightarrow> x mod 10 \<noteq> vs ! i mod 10 \<Longrightarrow>
     foldl iso7064Step r (vs[i := x]) \<noteq> foldl iso7064Step r vs"
proof (induction vs arbitrary: i r)
  case Nil
  then show ?case by simp
next
  case (Cons v vs)
  have range: "1 \<le> iso7064Step r v" "iso7064Step r v \<le> 10"
    "1 \<le> iso7064Step r x" "iso7064Step r x \<le> 10"
    using iso_step_range [of r v] iso_step_range [of r x] by simp_all
  show ?case
  proof (cases i)
    case 0
    have "iso7064Step r x \<noteq> iso7064Step r v"
      using Cons.prems 0 iso_step_inj_value [of r x v] by auto
    then show ?thesis
      using 0 range iso_run_inj [of "iso7064Step r x" "iso7064Step r v" vs] by simp
  next
    case (Suc k)
    then show ?thesis
      using Cons.prems range Cons.IH [of "iso7064Step r v" k] by simp
  qed
qed

lemma digitChar_inj: "v < 10 \<Longrightarrow> w < 10 \<Longrightarrow> digitChar v = digitChar w \<Longrightarrow> v = w"
  by (simp add: digitChar_def)

lemma digitChar_upper_check: "list_all (\<lambda>v. upperChar (digitChar v) = [digitChar v]) digits10"
  by (simp add: digits10_def digitChar_def char_eval)

lemma digitChar_upper: "v < 10 \<Longrightarrow> upperChar (digitChar v) = [digitChar v]"
  using digitChar_upper_check unfolding list_all_iff Ball_def digits10_iff by blast

lemma calculate_alphabet:
  assumes "set s \<subseteq> set ISO7064_ALPHABET"
  shows "calculateISO7064Check s
           = Inr [digitChar ((11 - foldl iso7064Step 10 (map isoValue s)) mod 10)]"
proof -
  let ?v = "(11 - foldl iso7064Step 10 (map isoValue s)) mod 10"
  have "?v < 10" by simp
  moreover have "?v \<noteq> 10"
    using mod_less_divisor [of 10 "11 - foldl iso7064Step 10 (map isoValue s)"] by linarith
  ultimately have "renderCheck ?v = [digitChar ?v]"
    by (simp add: renderCheck_def natToString_digit)
  then show ?thesis
    using assms
    by (simp add: calculateISO7064Check_def toUpperCase_iso iso7064Loop_alphabet)
qed

lemma check_value_inj:
  assumes "1 \<le> r" "r \<le> 10" "1 \<le> q" "q \<le> 10" "(11 - r) mod 10 = (11 - q) mod (10::nat)"
  shows "r = q"
proof -
  have "1 \<le> 11 - r" "11 - r \<le> 10" "1 \<le> 11 - q" "11 - q \<le> 10"
    using assms(1-4) by simp_all
  then have "11 - r = 11 - q"
    using assms(5) by (rule mod_10_inj)
  with assms(1-4) show ?thesis by simp
qed


lemma iso_examples:
  "calculateISO7064Check ''0'' = Inr ''2''" "calculateISO7064Check ''A'' = Inr ''2''"
  "calculateISO7064Check ''56'' = Inr ''0''" "calculateISO7064Check ''65'' = Inr ''0''"
  by (simp_all add: iso_eval char_eval)

lemma typo_examples:
  "validateCertificateNumber ''RS-2026-G-IN-SWG-000001-8''"
  "validateCertificateNumber ''RS-2026-G-IN-SWQ-000001-8''"
  by (simp_all add: cert_eval iso_eval char_eval)

text \<open>
  What the loop does tell apart: in a string over the alphabet 0-9A-Z, a character
  replaced by an alphabet character of another value modulo 10 changes the check
  character; and the function throws exactly when the upper-cased input has a character
  outside the alphabet.
\<close>

lemma iso7064_value_change:
  assumes "set s \<subseteq> set ISO7064_ALPHABET" and "i < length s" and "c \<in> set ISO7064_ALPHABET"
    and "isoValue c mod 10 \<noteq> isoValue (s ! i) mod 10"
  shows "calculateISO7064Check (s[i := c]) \<noteq> calculateISO7064Check s"
proof -
  let ?vs = "map isoValue s"
  let ?r = "foldl iso7064Step 10 ?vs" and ?q = "foldl iso7064Step 10 (?vs[i := isoValue c])"
  have sub: "set (s[i := c]) \<subseteq> set ISO7064_ALPHABET"
    using assms(1,3) set_update_subset_insert [of s i c] by auto
  have r: "1 \<le> ?r" "?r \<le> 10" and q: "1 \<le> ?q" "?q \<le> 10"
    using iso_run_range [of 10 ?vs] iso_run_range [of 10 "?vs[i := isoValue c]"] by simp_all
  have "?q \<noteq> ?r"
    using assms(2,4) iso_run_single [of 10 i ?vs "isoValue c"] by simp
  then have v: "(11 - ?q) mod 10 \<noteq> (11 - ?r) mod 10"
    using check_value_inj [OF q r] by blast
  then have d: "digitChar ((11 - ?q) mod 10) \<noteq> digitChar ((11 - ?r) mod 10)"
    using digitChar_inj [of "(11 - ?q) mod 10" "(11 - ?r) mod 10"] by auto
  have cs: "calculateISO7064Check s = Inr [digitChar ((11 - ?r) mod 10)]"
    using assms(1) by (rule calculate_alphabet)
  have cq: "calculateISO7064Check (s[i := c]) = Inr [digitChar ((11 - ?q) mod 10)]"
    using calculate_alphabet [OF sub] by (simp add: map_update)
  show ?thesis
    using cs cq d by simp
qed

lemma iso7064_throws:
  "(\<exists>e. calculateISO7064Check input = Inl e)
     \<longleftrightarrow> \<not> set (toUpperCase input) \<subseteq> set ISO7064_ALPHABET"
  using iso7064Loop_throws [of 10 "toUpperCase input"]
  by (auto simp: calculateISO7064Check_def split: sum.splits)

text \<open>
  C5. The check character does not detect every substitution nor every adjacent
  transposition over the alphabet 0-9A-Z: replacing \<open>0\<close> by \<open>A\<close> leaves the check character
  of the string \<open>0\<close> at 2, and transposing \<open>56\<close> into \<open>65\<close> leaves it at 0, so
  \<open>verifyISO7064\<close> with the former check character still returns true; and the
  certificate number \<open>RS-2026-G-IN-SWG-000001-8\<close> with its issuer code mistyped as \<open>SWQ\<close>
  is still accepted by \<open>validateCertificateNumber\<close>.
\<close>

theorem iso7064_undetected_errors:
  "set ''0'' \<subseteq> set ISO7064_ALPHABET \<and> CHR ''A'' \<in> set ISO7064_ALPHABET
   \<and> CHR ''A'' \<noteq> ''0'' ! 0
   \<and> calculateISO7064Check ''0'' = Inr ''2''
   \<and> calculateISO7064Check (''0''[0 := CHR ''A'']) = Inr ''2''
   \<and> verifyISO7064 (''0''[0 := CHR ''A'']) ''2''
   \<and> set ''56'' \<subseteq> set ISO7064_ALPHABET \<and> ''56'' ! 0 \<noteq> ''56'' ! 1
   \<and> calculateISO7064Check ''56'' = Inr ''0''
   \<and> calculateISO7064Check (''56''[0 := ''56'' ! 1, 1 := ''56'' ! 0]) = Inr ''0''
   \<and> verifyISO7064 (''56''[0 := ''56'' ! 1, 1 := ''56'' ! 0]) ''0''
   \<and> validateCertificateNumber ''RS-2026-G-IN-SWG-000001-8''
   \<and> validateCertificateNumber ''RS-2026-G-IN-SWQ-000001-8''"
  by (simp add: iso_examples typo_examples verifyISO7064_def)
    (simp add: ISO7064_ALPHABET_def char_eval)

section \<open>Properties of the certificate numbers\<close>

lemma code_digitChar: "d < 10 \<Longrightarrow> code (digitChar d) = 48 + d"
  by (simp add: code_def digitChar_def)

lemma isDigit_digitChar: "d < 10 \<Longrightarrow> isDigit (digitChar d)"
  by (simp add: isDigit_def code_digitChar)

lemma natToString_digits: "list_all isDigit (natToString n)"
proof (induction n rule: natToString.induct)
  case (1 n)
  show ?case
  proof (cases "n < 10")
    case True
    then show ?thesis by (simp add: natToString.simps [of n] isDigit_digitChar)
  next
    case False
    then show ?thesis
      using 1 by (simp add: natToString.simps [of n] isDigit_digitChar)
  qed
qed

lemma parseDigits_snoc: "parseDigits (xs @ [c]) = 10 * parseDigits xs + (code c - 48)"
  by (simp add: parseDigits_def)

lemma parseDigits_natToString: "parseDigits (natToString n) = n"
proof (induction n rule: natToString.induct)
  case (1 n)
  show ?case
  proof (cases "n < 10")
    case True
    then show ?thesis
      by (simp add: natToString.simps [of n] parseDigits_def code_digitChar)
  next
    case False
    then have "parseDigits (natToString n) = 10 * (n div 10) + n mod 10"
      using 1 by (simp add: natToString.simps [of n] parseDigits_snoc code_digitChar)
    then show ?thesis by simp
  qed
qed

lemma length_natToString: "n < 10 ^ Suc k \<Longrightarrow> length (natToString n) \<le> Suc k"
proof (induction k arbitrary: n)
  case 0
  then show ?case by (simp add: natToString.simps [of n])
next
  case (Suc k)
  show ?case
  proof (cases "n < 10")
    case True
    then show ?thesis by (simp add: natToString.simps [of n])
  next
    case False
    have "n div 10 < 10 ^ Suc k"
      using Suc.prems by (simp add: less_mult_imp_div_less mult.commute)
    then have "length (natToString (n div 10)) \<le> Suc k" by (rule Suc.IH)
    then show ?thesis
      using False by (simp add: natToString.simps [of n])
  qed
qed

lemma length_natToString_ge: "10 ^ k \<le> n \<Longrightarrow> Suc k \<le> length (natToString n)"
proof (induction k arbitrary: n)
  case 0
  then show ?case by (cases "n < 10") (simp_all add: natToString.simps [of n])
next
  case (Suc k)
  have "(10::nat) \<le> 10 ^ Suc k" by simp
  with Suc.prems have big: "\<not> n < 10" by linarith
  have "10 ^ k \<le> n div 10"
    using Suc.prems by (simp add: less_eq_div_iff_mult_less_eq mult.commute)
  then have "Suc k \<le> length (natToString (n div 10))" by (rule Suc.IH)
  then show ?case
    using big by (simp add: natToString.simps [of n])
qed

lemma year_string:
  assumes "2020 \<le> y" "y \<le> 2100"
  shows "length (natToString (nat y)) = 4"
proof -
  have "nat y < 10 ^ Suc 3" using assms by simp
  then have "length (natToString (nat y)) \<le> Suc 3" by (rule length_natToString)
  moreover have "10 ^ 3 \<le> nat y" using assms by simp
  then have "Suc 3 \<le> length (natToString (nat y))" by (rule length_natToString_ge)
  ultimately show ?thesis by simp
qed

lemma parseDigits_zeros: "parseDigits (replicate k CHR ''0'' @ t) = parseDigits t"
proof -
  have "foldl (\<lambda>acc c. 10 * acc + (code c - 48)) 0 (replicate k CHR ''0'') = 0"
    by (induction k) (simp_all add: code_def)
  then show ?thesis by (simp add: parseDigits_def)
qed

lemma serial_string:
  assumes "1 \<le> n" "n \<le> 999999"
  shows "length (padStart0 6 (natToString (nat n))) = 6"
    and "list_all isDigit (padStart0 6 (natToString (nat n)))"
    and "parseDigits (padStart0 6 (natToString (nat n))) = nat n"
proof -
  have "nat n < 10 ^ Suc 5" using assms by simp
  then have "length (natToString (nat n)) \<le> Suc 5" by (rule length_natToString)
  then show "length (padStart0 6 (natToString (nat n))) = 6"
    by (simp add: padStart0_def)
  have "isDigit CHR ''0''" by (simp add: isDigit_def code_def)
  then show "list_all isDigit (padStart0 6 (natToString (nat n)))"
    using natToString_digits [of "nat n"] by (auto simp: padStart0_def list_all_iff)
  show "parseDigits (padStart0 6 (natToString (nat n))) = nat n"
    by (simp add: padStart0_def parseDigits_zeros parseDigits_natToString)
qed


lemma upper_fixed: "code c < 97 \<Longrightarrow> upperChar c = [c]"
  by (simp add: upperChar_def hasUpper_def)

lemma toUpperCase_fixed: "\<forall>c \<in> set s. code c < 97 \<Longrightarrow> toUpperCase s = s"
  by (induction s) (simp_all add: toUpperCase_def upper_fixed)

lemma canonicalize_fixed: "code c < 97 \<Longrightarrow> canonicalize c = c"
  by (simp add: canonicalize_def upper_fixed)

lemma class_codes:
  "isDigit c \<Longrightarrow> code c < 97" "isUpperAZ c \<Longrightarrow> code c < 97" "code CHR ''-'' < 97"
  "code CHR ''R'' < 97" "code CHR ''S'' < 97" "code CHR ''B'' < 97" "code CHR ''G'' < 97"
  by (simp_all add: isDigit_def isUpperAZ_def code_def)

lemma length2E: "length xs = 2 \<Longrightarrow> \<exists>a b. xs = [a, b]"
  by (auto simp: numeral_eq_Suc length_Suc_conv)

lemma length3E: "length xs = 3 \<Longrightarrow> \<exists>a b c. xs = [a, b, c]"
  by (auto simp: numeral_eq_Suc length_Suc_conv)

lemma length4E: "length xs = 4 \<Longrightarrow> \<exists>a b c d. xs = [a, b, c, d]"
  by (auto simp: numeral_eq_Suc length_Suc_conv)

lemma length6E: "length xs = 6 \<Longrightarrow> \<exists>a b c d e f. xs = [a, b, c, d, e, f]"
  by (auto simp: numeral_eq_Suc length_Suc_conv)

lemma parse_canonical:
  assumes "length Y = 4" "list_all isDigit Y" "l \<in> set ''BSG''"
    and "length C = 2" "list_all isUpperAZ C" "length I = 3" "list_all isUpperAZ I"
    and "length P = 6" "list_all isDigit P" "isDigit k"
  shows "\<exists>lv. CODE_TO_LEVEL [l] = Some lv
    \<and> parseCertificateNumber
        (''RS-'' @ Y @ ''-'' @ [l] @ ''-'' @ C @ ''-'' @ I @ ''-'' @ P @ ''-'' @ [k])
      = Some \<lparr> p_year = parseDigits Y, p_level = lv, p_levelCode = [l], p_country = C,
               p_issuerCode = I, p_serial = parseDigits P, p_checkDigit = [k] \<rparr>"
proof -
  obtain y1 y2 y3 y4 where Y: "Y = [y1, y2, y3, y4]"
    using length4E [OF assms(1)] by blast
  obtain c1 c2 where C: "C = [c1, c2]"
    using length2E [OF assms(4)] by blast
  obtain i1 i2 i3 where I: "I = [i1, i2, i3]"
    using length3E [OF assms(6)] by blast
  obtain p1 p2 p3 p4 p5 p6 where P: "P = [p1, p2, p3, p4, p5, p6]"
    using length6E [OF assms(8)] by blast
  let ?s = "''RS-'' @ Y @ ''-'' @ [l] @ ''-'' @ C @ ''-'' @ I @ ''-'' @ P @ ''-'' @ [k]"
  have lcode: "code l < 97"
    using assms(3) by (auto simp: class_codes)
  have codes: "\<forall>c \<in> set ?s. code c < 97"
    using assms(2,5,7,9,10) lcode by (auto simp: list_all_iff class_codes)
  have up: "toUpperCase ?s = ?s"
    using codes by (rule toUpperCase_fixed)
  have canon: "canonicalize CHR ''R'' = CHR ''R''" "canonicalize CHR ''S'' = CHR ''S''"
    "canonicalize l = l" "canonicalize c1 = c1" "canonicalize c2 = c2"
    "canonicalize i1 = i1" "canonicalize i2 = i2" "canonicalize i3 = i3"
    using assms(5,7) lcode unfolding C I by (simp_all add: canonicalize_fixed class_codes)
  have m: "matchClasses certificatePattern ?s"
    using assms(2,3,5,7,9,10) unfolding Y C I P
    by (simp add: matchClasses_def certificatePattern_def replicate_numeral lit_def litI_def
        isAZI_def isBSGI_def isAZ09I_def canon)
  obtain lv where lv: "CODE_TO_LEVEL [l] = Some lv"
    using assms(3) by (auto simp: CODE_TO_LEVEL_def)
  have "parseCertificateNumber ?s
      = Some \<lparr> p_year = parseDigits Y, p_level = lv, p_levelCode = [l], p_country = C,
               p_issuerCode = I, p_serial = parseDigits P, p_checkDigit = [k] \<rparr>"
    unfolding parseCertificateNumber_def up Let_def using m lv
    unfolding Y C I P by (simp add: slice_def)
  with lv show ?thesis by blast
qed


lemma matchClasses_replicate:
  "matchClasses (replicate n p) xs \<longleftrightarrow> length xs = n \<and> list_all p xs"
  by (auto simp: matchClasses_def list_all2_conv_all_nth list_all_length)

lemma iso_members_check:
  "list_all (\<lambda>n. char_of n \<in> set ISO7064_ALPHABET) ([48 ..< 58] @ [65 ..< 91])"
  by (simp add: ISO7064_ALPHABET_def char_of_def bit_Suc_0_iff)

lemma iso_member: "isDigit c \<or> isUpperAZ c \<Longrightarrow> c \<in> set ISO7064_ALPHABET"
proof -
  assume "isDigit c \<or> isUpperAZ c"
  then have "code c \<in> {48 ..< 58} \<union> {65 ..< 91}"
    by (auto simp: isDigit_def isUpperAZ_def)
  then have "code c \<in> set ([48 ..< 58] @ [65 ..< 91])"
    by (simp only: set_append set_upt)
  then have "char_of (code c) \<in> set ISO7064_ALPHABET"
    using iso_members_check unfolding list_all_iff by blast
  then show ?thesis by (simp add: code_def)
qed

lemma level_code: "\<exists>l. LEVEL_CODES lv = [l] \<and> l \<in> set ''BSG'' \<and> isUpperAZ l"
  by (cases lv) (simp_all add: isUpperAZ_def code_def)

lemma generate_shape:
  assumes "generateCertificateNumber options = Inr s"
  shows "\<exists>y n chk. year options = Integer y \<and> 2020 \<le> y \<and> y \<le> 2100
    \<and> serial options = Integer n \<and> 1 \<le> n \<and> n \<le> 999999
    \<and> matchClasses (replicate 2 isUpperAZ) (toUpperCase (country options))
    \<and> matchClasses (replicate 3 isUpperAZ) (toUpperCase (issuerCode options))
    \<and> calculateISO7064Check (''RS'' @ natToString (nat y) @ LEVEL_CODES (level options)
          @ toUpperCase (country options) @ toUpperCase (issuerCode options)
          @ padStart0 6 (natToString (nat n))) = Inr chk
    \<and> s = ''RS-'' @ natToString (nat y) @ ''-'' @ LEVEL_CODES (level options) @ ''-''
          @ toUpperCase (country options) @ ''-'' @ toUpperCase (issuerCode options) @ ''-''
          @ padStart0 6 (natToString (nat n)) @ ''-'' @ chk"
  using assms unfolding generateCertificateNumber_def Let_def
  by (auto split: jsnumber.splits if_splits sum.splits)


lemma upper_letter: "isLetter c \<Longrightarrow> \<exists>u. upperChar c = [u] \<and> isUpperAZ u"
proof (cases "isUpperAZ c")
  case True
  then show ?thesis by (simp add: upper_fixed class_codes)
next
  case False
  assume "isLetter c"
  with False have low: "97 \<le> code c" "code c \<le> 122"
    by (simp_all add: isLetter_def isLowerAZ_def)
  then have "upperChar c = [char_of (code c - 32)]"
    by (simp add: upperChar_def hasUpper_def)
  moreover have "isUpperAZ (char_of (code c - 32))"
  proof -
    have "(code c - 32) mod 256 = code c - 32"
      using low by simp
    then have "code (char_of (code c - 32)) = code c - 32"
      by (simp add: code_def)
    moreover have "65 \<le> code c - 32" "code c - 32 \<le> 90"
      using low by linarith+
    ultimately show ?thesis
      by (simp only: isUpperAZ_def)
  qed
  ultimately show ?thesis by blast
qed

lemma toUpperCase_letters:
  "list_all isLetter s \<Longrightarrow>
     length (toUpperCase s) = length s \<and> list_all isUpperAZ (toUpperCase s)"
proof (induction s)
  case Nil
  then show ?case by (simp add: toUpperCase_def)
next
  case (Cons c s)
  then obtain u where "upperChar c = [u]" "isUpperAZ u"
    using upper_letter [of c] by auto
  then show ?case
    using Cons by (simp add: toUpperCase_def)
qed

lemma base_in_alphabet:
  assumes "list_all isUpperAZ C" "list_all isUpperAZ I"
  shows "set (''RS'' @ natToString y @ LEVEL_CODES lv @ C @ I @ padStart0 6 (natToString n))
           \<subseteq> set ISO7064_ALPHABET"
proof -
  have rs: "CHR ''R'' \<in> set ISO7064_ALPHABET" "CHR ''S'' \<in> set ISO7064_ALPHABET"
    "CHR ''0'' \<in> set ISO7064_ALPHABET"
    by (simp_all add: ISO7064_ALPHABET_def)
  have lv: "set (LEVEL_CODES lv) \<subseteq> set ISO7064_ALPHABET"
    using level_code [of lv] by (auto intro: iso_member)
  have digits: "set (natToString m) \<subseteq> set ISO7064_ALPHABET" for m
    using natToString_digits [of m] by (auto simp: list_all_iff intro: iso_member)
  have letters: "set C \<subseteq> set ISO7064_ALPHABET" "set I \<subseteq> set ISO7064_ALPHABET"
    using assms by (auto simp: list_all_iff intro: iso_member)
  have pad: "set (padStart0 6 (natToString n)) \<subseteq> set ISO7064_ALPHABET"
    using digits [of n] rs(3) by (auto simp: padStart0_def)
  show ?thesis
    using rs lv digits [of y] letters pad by simp
qed

lemma generated_validates:
  assumes "generateCertificateNumber options = Inr s"
  shows "validateCertificateNumber s"
proof -
  obtain y n chk where shape:
    "2020 \<le> y" "y \<le> 2100" "1 \<le> n" "n \<le> 999999"
    "matchClasses (replicate 2 isUpperAZ) (toUpperCase (country options))"
    "matchClasses (replicate 3 isUpperAZ) (toUpperCase (issuerCode options))"
    "calculateISO7064Check (''RS'' @ natToString (nat y) @ LEVEL_CODES (level options)
          @ toUpperCase (country options) @ toUpperCase (issuerCode options)
          @ padStart0 6 (natToString (nat n))) = Inr chk"
    "s = ''RS-'' @ natToString (nat y) @ ''-'' @ LEVEL_CODES (level options) @ ''-''
          @ toUpperCase (country options) @ ''-'' @ toUpperCase (issuerCode options) @ ''-''
          @ padStart0 6 (natToString (nat n)) @ ''-'' @ chk"
    using generate_shape [OF assms] by blast
  let ?Y = "natToString (nat y)" and ?C = "toUpperCase (country options)"
  let ?I = "toUpperCase (issuerCode options)" and ?P = "padStart0 6 (natToString (nat n))"
  obtain l where l: "LEVEL_CODES (level options) = [l]" "l \<in> set ''BSG''"
    using level_code [of "level options"] by blast
  let ?base = "''RS'' @ ?Y @ [l] @ ?C @ ?I @ ?P"
  have C: "length ?C = 2" "list_all isUpperAZ ?C" and I: "length ?I = 3" "list_all isUpperAZ ?I"
    using shape(5,6) by (simp_all add: matchClasses_replicate)
  have Y: "length ?Y = 4" "list_all isDigit ?Y" "parseDigits ?Y = nat y"
    using shape(1,2) by (simp_all add: year_string natToString_digits parseDigits_natToString)
  have P: "length ?P = 6" "list_all isDigit ?P" "parseDigits ?P = nat n"
    using shape(3,4) by (simp_all add: serial_string)
  have sub: "set ?base \<subseteq> set ISO7064_ALPHABET"
    using base_in_alphabet [OF C(2) I(2), of "nat y" "level options" "nat n"] l(1) by simp
  let ?v = "(11 - foldl iso7064Step 10 (map isoValue ?base)) mod 10"
  have calc: "calculateISO7064Check ?base = Inr [digitChar ?v]"
    using sub by (rule calculate_alphabet)
  then have chk: "chk = [digitChar ?v]"
    using shape(7) l(1) by simp
  have v: "?v < 10" by simp
  have k: "isDigit (digitChar ?v)"
    using v by (rule isDigit_digitChar)
  obtain lv where parsed: "parseCertificateNumber
        (''RS-'' @ ?Y @ ''-'' @ [l] @ ''-'' @ ?C @ ''-'' @ ?I @ ''-'' @ ?P @ ''-'' @ [digitChar ?v])
      = Some \<lparr> p_year = parseDigits ?Y, p_level = lv, p_levelCode = [l], p_country = ?C,
               p_issuerCode = ?I, p_serial = parseDigits ?P, p_checkDigit = [digitChar ?v] \<rparr>"
    using parse_canonical [OF Y(1,2) l(2) C I P(1,2) k] by blast
  have s: "s = ''RS-'' @ ?Y @ ''-'' @ [l] @ ''-'' @ ?C @ ''-'' @ ?I @ ''-'' @ ?P @ ''-''
        @ [digitChar ?v]"
    using shape(8) l(1) chk by simp
  have up: "toUpperCase [digitChar ?v] = [digitChar ?v]"
    using v by (simp add: toUpperCase_def digitChar_upper)
  have "verifyISO7064 ?base [digitChar ?v]"
    using calc up by (simp add: verifyISO7064_def)
  then show ?thesis
    unfolding validateCertificateNumber_def s parsed
    by (simp add: Let_def Y(3) P(3))
qed

lemma valid_generates:
  assumes "validOptions options"
  shows "\<exists>s. generateCertificateNumber options = Inr s"
proof -
  obtain y where y: "year options = Integer y" "2020 \<le> y" "y \<le> 2100"
    using assms by (auto simp: validOptions_def inRange_def split: jsnumber.splits)
  obtain n where n: "serial options = Integer n" "1 \<le> n" "n \<le> 999999"
    using assms by (auto simp: validOptions_def inRange_def split: jsnumber.splits)
  let ?C = "toUpperCase (country options)" and ?I = "toUpperCase (issuerCode options)"
  have C: "length ?C = 2" "list_all isUpperAZ ?C"
    using assms toUpperCase_letters [of "country options"] by (simp_all add: validOptions_def)
  have I: "length ?I = 3" "list_all isUpperAZ ?I"
    using assms toUpperCase_letters [of "issuerCode options"] by (simp_all add: validOptions_def)
  have m: "matchClasses (replicate 2 isUpperAZ) ?C" "matchClasses (replicate 3 isUpperAZ) ?I"
    using C I by (simp_all add: matchClasses_replicate)
  have lv: "LEVEL_CODES (level options) \<noteq> []"
    using level_code [of "level options"] by auto
  let ?base = "''RS'' @ natToString (nat y) @ LEVEL_CODES (level options) @ ?C @ ?I
                @ padStart0 6 (natToString (nat n))"
  have "set ?base \<subseteq> set ISO7064_ALPHABET"
    using C(2) I(2) by (rule base_in_alphabet)
  then obtain chk where "calculateISO7064Check ?base = Inr chk"
    using calculate_alphabet by blast
  then show ?thesis
    using y n m lv by (simp add: generateCertificateNumber_def Let_def)
qed

text \<open>
  C7. On every valid input \<open>generateCertificateNumber\<close> returns a certificate number, and
  \<open>validateCertificateNumber\<close> returns true on every certificate number that
  \<open>generateCertificateNumber\<close> returns.
\<close>

theorem generated_number_is_valid:
  "(validOptions options \<longrightarrow>
      (\<exists>s. generateCertificateNumber options = Inr s \<and> validateCertificateNumber s))
   \<and> (generateCertificateNumber options = Inr s \<longrightarrow> validateCertificateNumber s)"
  using valid_generates [of options] generated_validates by blast

lemma example_valid:
  "validOptions \<lparr> year = Integer 2026, level = gold, country = ''in'',
      issuerCode = ''Swg'', serial = Integer 42 \<rparr>"
  by (simp add: validOptions_def inRange_def isLetter_def isUpperAZ_def isLowerAZ_def code_def)

lemma example_generated:
  "generateCertificateNumber \<lparr> year = Integer 2026, level = gold, country = ''in'',
      issuerCode = ''Swg'', serial = Integer 42 \<rparr> = Inr ''RS-2026-G-IN-SWG-000042-1''"
  by (simp add: cert_eval iso_eval char_eval)

theorem generated_number_is_valid_witness:
  "validOptions \<lparr> year = Integer 2026, level = gold, country = ''in'',
      issuerCode = ''Swg'', serial = Integer 42 \<rparr>
   \<and> generateCertificateNumber \<lparr> year = Integer 2026, level = gold, country = ''in'',
      issuerCode = ''Swg'', serial = Integer 42 \<rparr> = Inr ''RS-2026-G-IN-SWG-000042-1''
   \<and> validateCertificateNumber ''RS-2026-G-IN-SWG-000042-1''"
  using generated_number_is_valid [of "\<lparr> year = Integer 2026, level = gold, country = ''in'',
      issuerCode = ''Swg'', serial = Integer 42 \<rparr>" "''RS-2026-G-IN-SWG-000042-1''"]
    example_valid example_generated by blast

end
